theory Spec2Isabelle
  imports Complex_Main
begin

section \<open>The resize generator of apps/resize/resize_generator.cpp\<close>

text \<open>
  The generator describes a pure pipeline over 32-bit floats and 32-bit integers. The
  embedding keeps apart what rounding moves by a whole pixel and what it moves by a
  rounding error.

  \<^item> The coordinate arithmetic (\<open>sourcex\<close>, \<open>kernel_radius\<close>, \<open>kernel_taps\<close>, \<open>beginx\<close> and the
    argument handed to the kernel) is rounded after every operation by \<open>f32\<close>, to the nearest
    number with a 24-bit significand, ties to even. The exponent range is not bounded: no
    overflow to infinity and no subnormal numbers.

  \<^item> The integers are unbounded; \<open>window_x\<close> and \<open>window_y\<close> say that the integers of an
    axis fit 32 bits, and where they do not the resampling is undefined (\<open>None\<close>).

  \<^item> The kernel values, the normalisation and the weighted sums are read as real
    numbers: \<open>float(M_PI)\<close> is \<open>pi\<close>, \<open>abs\<close> the absolute value, \<open>select c a b\<close> is
    \<open>if c then a else b\<close>. The properties below that the source has only within a
    floating-point tolerance are exact here.

  \<^item> A quotient by zero is not a number: it is the value \<open>NotNum\<close>, which sums and
    products keep. \<open>NotNum\<close> stands for a NaN and for an infinity alike.

  \<^item> A read of the input buffer outside its bounds is an error (\<open>None\<close>).
\<close>

subsection \<open>Kernel library\<close>

datatype InterpolationType = Box | Linear | Cubic | Lanczos

definition kernel_box :: "real \<Rightarrow> real" where
  "kernel_box x = (let xx = \<bar>x\<bar> in if xx \<le> 1 / 2 then 1 else 0)"

definition kernel_linear :: "real \<Rightarrow> real" where
  "kernel_linear x = (let xx = \<bar>x\<bar> in if xx < 1 then 1 - xx else 0)"

definition kernel_cubic :: "real \<Rightarrow> real" where
  "kernel_cubic x =
     (let xx = \<bar>x\<bar>; xx2 = xx * xx; xx3 = xx2 * xx; a = - (1 / 2) in
      if xx < 1 then (a + 2) * xx3 - (a + 3) * xx2 + 1
      else if xx < 2 then a * xx3 - 5 * a * xx2 + 8 * a * xx - 4 * a
      else 0)"

text \<open>
  \<open>sinc\<close> divides by \<open>x\<close>, not by \<open>pi * x\<close>. At \<open>x = 0\<close> the quotient is discarded by the
  \<open>select\<close> in \<open>kernel_lanczos\<close>, so its value there never reaches a result.
\<close>

definition sinc :: "real \<Rightarrow> real" where
  "sinc x = sin (pi * x) / x"

definition kernel_lanczos :: "real \<Rightarrow> real" where
  "kernel_lanczos x =
     (let v0 = sinc x * sinc (x / 3);
          v1 = (if x = 0 then 1 else v0);
          v2 = (if x > 3 \<or> x < - 3 then 0 else v1)
      in v2)"

record KernelInfo =
  name :: string
  taps :: int
  kernel :: "real \<Rightarrow> real"

fun kernel_info :: "InterpolationType \<Rightarrow> KernelInfo" where
  "kernel_info Box = \<lparr>name = ''box'', taps = 1, kernel = kernel_box\<rparr>"
| "kernel_info Linear = \<lparr>name = ''linear'', taps = 2, kernel = kernel_linear\<rparr>"
| "kernel_info Cubic = \<lparr>name = ''cubic'', taps = 4, kernel = kernel_cubic\<rparr>"
| "kernel_info Lanczos = \<lparr>name = ''lanczos'', taps = 6, kernel = kernel_lanczos\<rparr>"

subsection \<open>Floats, integers and values that are not numbers\<close>

text \<open>Rounding to the nearest integer, ties to even.\<close>

definition round_even :: "real \<Rightarrow> int" where
  "round_even r =
     (let f = \<lfloor>r\<rfloor> in
      if r - real_of_int f < 1 / 2 then f
      else if 1 / 2 < r - real_of_int f then f + 1
      else if even f then f else f + 1)"

text \<open>
  Rounding to float32: for \<open>2 ^ e \<le> \<bar>v\<bar> < 2 ^ (e + 1)\<close> the floats are the multiples of
  \<open>2 ^ (e - 23)\<close>.
\<close>

definition f32 :: "real \<Rightarrow> real" where
  "f32 v =
     (if v = 0 then 0
      else let u = 2 powr (real_of_int \<lfloor>log 2 \<bar>v\<bar>\<rfloor> - 23)
           in real_of_int (round_even (v / u)) * u)"

definition int32 :: "int \<Rightarrow> bool" where
  "int32 z \<longleftrightarrow> - (2 ^ 31) \<le> z \<and> z < 2 ^ 31"

text \<open>A float value of the pipeline: a number, or a NaN or an infinity.\<close>

datatype fval = Num real | NotNum

definition fdiv :: "real \<Rightarrow> real \<Rightarrow> fval" where
  "fdiv a b = (if b = 0 then NotNum else Num (a / b))"

fun vmul :: "fval \<Rightarrow> fval \<Rightarrow> fval" where
  "vmul (Num u) (Num v) = Num (u * v)"
| "vmul _ _ = NotNum"

fun vadd :: "fval \<Rightarrow> fval \<Rightarrow> fval" where
  "vadd (Num u) (Num v) = Num (u + v)"
| "vadd _ _ = NotNum"

text \<open>The same on results that can be an error.\<close>

definition fmul :: "fval option \<Rightarrow> fval option \<Rightarrow> fval option" where
  "fmul a b = (case a of None \<Rightarrow> None | Some u \<Rightarrow> (case b of None \<Rightarrow> None | Some v \<Rightarrow> Some (vmul u v)))"

definition fadd :: "fval option \<Rightarrow> fval option \<Rightarrow> fval option" where
  "fadd a b = (case a of None \<Rightarrow> None | Some u \<Rightarrow> (case b of None \<Rightarrow> None | Some v \<Rightarrow> Some (vadd u v)))"

text \<open>
  Halide's \<open>sum\<close> over the reduction domain \<open>RDom r(0, n)\<close>: the terms at
  \<open>r = 0, ..., n - 1\<close> added to an initial 0. An extent that is not positive gives no term.
\<close>

primrec rdom_sum :: "nat \<Rightarrow> (nat \<Rightarrow> real) \<Rightarrow> real" where
  "rdom_sum 0 f = 0"
| "rdom_sum (Suc n) f = rdom_sum n f + f n"

primrec rdom_sum_val :: "nat \<Rightarrow> (nat \<Rightarrow> fval) \<Rightarrow> fval" where
  "rdom_sum_val 0 f = Num 0"
| "rdom_sum_val (Suc n) f = vadd (rdom_sum_val n f) (f n)"

primrec rdom_sum_opt :: "nat \<Rightarrow> (nat \<Rightarrow> fval option) \<Rightarrow> fval option" where
  "rdom_sum_opt 0 f = Some (Num 0)"
| "rdom_sum_opt (Suc n) f = fadd (rdom_sum_opt n f) (f n)"

text \<open>
  Modelled from the spec: Halide's \<open>clamp\<close> is not part of the generator's source. The
  specification has it bring a value into \<open>[lo, hi]\<close>, unconditionally; it is the maximum of
  \<open>lo\<close> and the minimum of the value and \<open>hi\<close>. The minimum and the maximum are a
  comparison and a selection each, and every comparison with a NaN is false: the minimum
  of a NaN and \<open>hi\<close> is \<open>hi\<close>, and so the clamp of a NaN is the maximum of \<open>hi\<close> and \<open>lo\<close>.
  This is the value of \<open>clamp_val\<close> on \<open>NotNum\<close>. (The source's clamp of an infinity is
  the bound on its side; for either sign the result is one of the two bounds.)
\<close>

definition clamp :: "'a::linorder \<Rightarrow> 'a \<Rightarrow> 'a \<Rightarrow> 'a" where
  "clamp v lo hi = max (min v hi) lo"

fun clamp_val :: "fval \<Rightarrow> real \<Rightarrow> real \<Rightarrow> real" where
  "clamp_val (Num v) lo hi = clamp v lo hi"
| "clamp_val NotNum lo hi = max hi lo"

subsection \<open>Parameters and buffers\<close>

text \<open>The generator parameters and the scalar input of class \<open>Resize\<close>.\<close>

record Resize =
  interpolation_type :: InterpolationType
  upsample :: bool
  scale_factor :: real

text \<open>
  The input buffer: three dimensions with a minimum and an extent each, and the samples.
  A read outside \<open>[min, min + extent)\<close> in any dimension is an error.
\<close>

record InputBuffer =
  dim0_min :: int
  dim0_extent :: int
  dim1_min :: int
  dim1_extent :: int
  dim2_min :: int
  dim2_extent :: int
  samples :: "int \<Rightarrow> int \<Rightarrow> int \<Rightarrow> real"

definition in_bounds :: "InputBuffer \<Rightarrow> int \<Rightarrow> int \<Rightarrow> int \<Rightarrow> bool" where
  "in_bounds inp x y c \<longleftrightarrow>
     dim0_min inp \<le> x \<and> x < dim0_min inp + dim0_extent inp \<and>
     dim1_min inp \<le> y \<and> y < dim1_min inp + dim1_extent inp \<and>
     dim2_min inp \<le> c \<and> c < dim2_min inp + dim2_extent inp"

definition input_at :: "InputBuffer \<Rightarrow> int \<Rightarrow> int \<Rightarrow> int \<Rightarrow> real option" where
  "input_at inp x y c = (if in_bounds inp x y c then Some (samples inp x y c) else None)"

subsection \<open>Boundary handler\<close>

text \<open>
  Modelled from the spec: \<open>BoundaryConditions::repeat_edge\<close> is not part of the
  generator's source. The generator passes it the input and the (min, extent) pairs of
  dimensions 0 and 1 only; the specification has it return the sample at the coordinate
  clamped into the valid index range of each of these axes, the channel untouched.
\<close>

definition repeat_edge ::
  "(int \<Rightarrow> int \<Rightarrow> int \<Rightarrow> real option) \<Rightarrow> (int \<times> int) \<Rightarrow> (int \<times> int) \<Rightarrow> int \<Rightarrow> int \<Rightarrow> int \<Rightarrow> real option" where
  "repeat_edge f b0 b1 x y c =
     f (clamp x (fst b0) (fst b0 + snd b0 - 1)) (clamp y (fst b1) (fst b1 + snd b1 - 1)) c"

definition clamped :: "InputBuffer \<Rightarrow> int \<Rightarrow> int \<Rightarrow> int \<Rightarrow> real option" where
  "clamped inp =
     repeat_edge (input_at inp) (dim0_min inp, dim0_extent inp) (dim1_min inp, dim1_extent inp)"

subsection \<open>Kernel weight generator\<close>

definition kernel_scaling :: "Resize \<Rightarrow> real" where
  "kernel_scaling g = (if upsample g then 1 else scale_factor g)"

definition kernel_radius :: "Resize \<Rightarrow> real" where
  "kernel_radius g =
     f32 (f32 ((1 / 2) * real_of_int (taps (kernel_info (interpolation_type g)))) / kernel_scaling g)"

text \<open>\<open>kernel_taps\<close> is a float in the source; the reduction domain takes it as an integer.\<close>

definition kernel_taps :: "Resize \<Rightarrow> int" where
  "kernel_taps g =
     \<lceil>f32 (real_of_int (taps (kernel_info (interpolation_type g))) / kernel_scaling g)\<rceil>"

text \<open>The number of points of \<open>RDom r(0, kernel_taps)\<close>.\<close>

definition r_extent :: "Resize \<Rightarrow> nat" where
  "r_extent g = nat (kernel_taps g)"

definition sourcex :: "Resize \<Rightarrow> int \<Rightarrow> real" where
  "sourcex g x = f32 (f32 (f32 (f32 (real_of_int x) + 1 / 2) / scale_factor g) - 1 / 2)"

definition sourcey :: "Resize \<Rightarrow> int \<Rightarrow> real" where
  "sourcey g y = f32 (f32 (f32 (f32 (real_of_int y) + 1 / 2) / scale_factor g) - 1 / 2)"

definition beginx :: "Resize \<Rightarrow> int \<Rightarrow> int" where
  "beginx g x = \<lceil>f32 (sourcex g x - kernel_radius g)\<rceil>"

definition beginy :: "Resize \<Rightarrow> int \<Rightarrow> int" where
  "beginy g y = \<lceil>f32 (sourcey g y - kernel_radius g)\<rceil>"

text \<open>
  The integers of one axis fit 32 bits: the output coordinate, the number of taps, the
  first tap and the end of the tap window. Under this condition \<open>cast<int>\<close> is the
  identity on the integer it is given, and \<open>beginx\<close>, \<open>r_extent\<close> and what is built on them
  have the source's values; where it fails, the resampling is undefined.
\<close>

definition window_x :: "Resize \<Rightarrow> int \<Rightarrow> bool" where
  "window_x g x \<longleftrightarrow>
     int32 x \<and> int32 (kernel_taps g) \<and> int32 (beginx g x) \<and> int32 (beginx g x + kernel_taps g)"

definition window_y :: "Resize \<Rightarrow> int \<Rightarrow> bool" where
  "window_y g y \<longleftrightarrow>
     int32 y \<and> int32 (kernel_taps g) \<and> int32 (beginy g y) \<and> int32 (beginy g y + kernel_taps g)"

definition unnormalized_kernel_x :: "Resize \<Rightarrow> int \<Rightarrow> nat \<Rightarrow> real" where
  "unnormalized_kernel_x g x k =
     kernel (kernel_info (interpolation_type g))
       (f32 (f32 (f32 (real_of_int (int k + beginx g x)) - sourcex g x) * kernel_scaling g))"

definition unnormalized_kernel_y :: "Resize \<Rightarrow> int \<Rightarrow> nat \<Rightarrow> real" where
  "unnormalized_kernel_y g y k =
     kernel (kernel_info (interpolation_type g))
       (f32 (f32 (f32 (real_of_int (int k + beginy g y)) - sourcey g y) * kernel_scaling g))"

definition kernel_sum_x :: "Resize \<Rightarrow> int \<Rightarrow> real" where
  "kernel_sum_x g x = rdom_sum (r_extent g) (unnormalized_kernel_x g x)"

definition kernel_sum_y :: "Resize \<Rightarrow> int \<Rightarrow> real" where
  "kernel_sum_y g y = rdom_sum (r_extent g) (unnormalized_kernel_y g y)"

definition kernel_x :: "Resize \<Rightarrow> int \<Rightarrow> nat \<Rightarrow> fval" where
  "kernel_x g x k = fdiv (unnormalized_kernel_x g x k) (kernel_sum_x g x)"

definition kernel_y :: "Resize \<Rightarrow> int \<Rightarrow> nat \<Rightarrow> fval" where
  "kernel_y g y k = fdiv (unnormalized_kernel_y g y k) (kernel_sum_y g y)"

subsection \<open>Separable resampler\<close>

text \<open>A sample of the boundary handler as a value of the pipeline.\<close>

definition clamped_val :: "InputBuffer \<Rightarrow> int \<Rightarrow> int \<Rightarrow> int \<Rightarrow> fval option" where
  "clamped_val inp x y c = map_option Num (clamped inp x y c)"

text \<open>The branch taken when \<open>upsample\<close> is set: along x first, then along y.\<close>

definition resized_x_up :: "Resize \<Rightarrow> InputBuffer \<Rightarrow> int \<Rightarrow> int \<Rightarrow> int \<Rightarrow> fval option" where
  "resized_x_up g inp x y c =
     rdom_sum_opt (r_extent g)
       (\<lambda>r. fmul (Some (kernel_x g x r)) (clamped_val inp (int r + beginx g x) y c))"

definition resized_y_up :: "Resize \<Rightarrow> InputBuffer \<Rightarrow> int \<Rightarrow> int \<Rightarrow> int \<Rightarrow> fval option" where
  "resized_y_up g inp x y c =
     (if window_x g x \<and> window_y g y
      then rdom_sum_opt (r_extent g)
             (\<lambda>r. fmul (Some (kernel_y g y r)) (resized_x_up g inp x (int r + beginy g y) c))
      else None)"

text \<open>The other branch: along y first, then along x.\<close>

definition resized_y_down :: "Resize \<Rightarrow> InputBuffer \<Rightarrow> int \<Rightarrow> int \<Rightarrow> int \<Rightarrow> fval option" where
  "resized_y_down g inp x y c =
     rdom_sum_opt (r_extent g)
       (\<lambda>r. fmul (Some (kernel_y g y r)) (clamped_val inp x (int r + beginy g y) c))"

definition resized_x_down :: "Resize \<Rightarrow> InputBuffer \<Rightarrow> int \<Rightarrow> int \<Rightarrow> int \<Rightarrow> fval option" where
  "resized_x_down g inp x y c =
     (if window_x g x \<and> window_y g y
      then rdom_sum_opt (r_extent g)
             (\<lambda>r. fmul (Some (kernel_x g x r)) (resized_y_down g inp (int r + beginx g x) y c))
      else None)"

text \<open>
  The output Func (\<open>output\<close> is a keyword of Isabelle, hence the suffix). The clamp is
  applied to whatever the sum is.
\<close>

definition output_at :: "Resize \<Rightarrow> InputBuffer \<Rightarrow> int \<Rightarrow> int \<Rightarrow> int \<Rightarrow> real option" where
  "output_at g inp x y c =
     (if upsample g then map_option (\<lambda>v. clamp_val v 0 1) (resized_y_up g inp x y c)
      else map_option (\<lambda>v. clamp_val v 0 1) (resized_x_down g inp x y c))"

subsection \<open>Definitions used to state and to test the properties\<close>

text \<open>
  The 3-lobe Lanczos kernel in the words of the specification, with the normalised
  \<open>sin (pi * x) / (pi * x)\<close>; it is compared with \<open>kernel_lanczos\<close> below.
\<close>

definition lanczos_spec :: "real \<Rightarrow> real" where
  "lanczos_spec t =
     (if t = 0 then 1
      else if \<bar>t\<bar> \<ge> 3 then 0
      else (sin (pi * t) / (pi * t)) * (sin (pi * (t / 3)) / (pi * (t / 3))))"

text \<open>The index of the tap that falls on the source pixel when the scale factor is 1.\<close>

definition centre_tap :: "InterpolationType \<Rightarrow> nat" where
  "centre_tap t = (case t of Box \<Rightarrow> 0 | Linear \<Rightarrow> 1 | Cubic \<Rightarrow> 2 | Lanczos \<Rightarrow> 3)"

text \<open>A 2 x 2 single-channel image with rows \<open>[0, 1]\<close> and \<open>[1, 0]\<close>, and some settings.\<close>

definition checker :: InputBuffer where
  "checker = \<lparr>dim0_min = 0, dim0_extent = 2, dim1_min = 0, dim1_extent = 2,
     dim2_min = 0, dim2_extent = 1,
     samples = (\<lambda>x y c. if (x = 1 \<and> y = 0) \<or> (x = 0 \<and> y = 1) then 1 else 0)\<rparr>"

definition box_up2 :: Resize where
  "box_up2 = \<lparr>interpolation_type = Box, upsample = True, scale_factor = 2\<rparr>"

definition box_down2 :: Resize where
  "box_down2 = \<lparr>interpolation_type = Box, upsample = False, scale_factor = 2\<rparr>"

definition box_down4 :: Resize where
  "box_down4 = \<lparr>interpolation_type = Box, upsample = False, scale_factor = 4\<rparr>"

definition box_half :: "bool \<Rightarrow> Resize" where
  "box_half up = \<lparr>interpolation_type = Box, upsample = up, scale_factor = 1 / 2\<rparr>"


definition linear_unit :: Resize where
  "linear_unit = \<lparr>interpolation_type = Linear, upsample = False, scale_factor = 1\<rparr>"

definition cubic_unit :: Resize where
  "cubic_unit = \<lparr>interpolation_type = Cubic, upsample = False, scale_factor = 1\<rparr>"



text \<open>A 4 x 1 image with a step from 0 to 1, and cubic upsampling by 2.\<close>

definition edge :: InputBuffer where
  "edge = \<lparr>dim0_min = 0, dim0_extent = 4, dim1_min = 0, dim1_extent = 1,
     dim2_min = 0, dim2_extent = 1, samples = (\<lambda>x y c. if 2 \<le> x then 1 else 0)\<rparr>"

definition cubic_up2 :: Resize where
  "cubic_up2 = \<lparr>interpolation_type = Cubic, upsample = True, scale_factor = 2\<rparr>"

definition lanczos_up :: Resize where
  "lanczos_up = \<lparr>interpolation_type = Lanczos, upsample = True, scale_factor = 3 / 2\<rparr>"

text \<open>Two channels: the 2 x 2 image in channel 0, and a constant \<open>a\<close> in channel 1.\<close>

definition two_channel :: "real \<Rightarrow> InputBuffer" where
  "two_channel a = \<lparr>dim0_min = 0, dim0_extent = 2, dim1_min = 0, dim1_extent = 2,
     dim2_min = 0, dim2_extent = 2,
     samples = (\<lambda>x y c. if c = 0 then (if (x = 1 \<and> y = 0) \<or> (x = 0 \<and> y = 1) then 1 else 0) else a)\<rparr>"

section \<open>Auxiliary facts\<close>

subsection \<open>Rounding to 32-bit floats\<close>

lemma round_even_int [simp]: "round_even (real_of_int m) = m"
  by (simp add: round_even_def)

lemma f32_binade:
  assumes "2 powr real_of_int p \<le> \<bar>v\<bar>" "\<bar>v\<bar> < 2 powr (real_of_int p + 1)"
  shows "f32 v = real_of_int (round_even (v / 2 powr (real_of_int p - 23))) * 2 powr (real_of_int p - 23)"
proof -
  have "0 < 2 powr real_of_int p" by simp
  with assms have pos: "0 < \<bar>v\<bar>" by linarith
  then have "\<lfloor>log 2 \<bar>v\<bar>\<rfloor> = p"
    using assms by (simp add: floor_log_eq_powr_iff)
  moreover have "v \<noteq> 0" using pos by simp
  ultimately show ?thesis by (simp add: f32_def Let_def)
qed

text \<open>A multiple of a power of two with a multiplier below \<open>2 ^ 24\<close> is a float.\<close>

lemma f32_exact:
  assumes m: "\<bar>m\<bar> < 2 ^ 24"
  shows "f32 (real_of_int m * 2 powr real_of_int j) = real_of_int m * 2 powr real_of_int j"
proof (cases "m = 0")
  case True
  then show ?thesis by (simp add: f32_def)
next
  case False
  define v where "v = real_of_int m * 2 powr real_of_int j"
  define p where "p = \<lfloor>log 2 \<bar>v\<bar>\<rfloor>"
  have vpos: "0 < \<bar>v\<bar>" using False by (simp add: v_def)
  have bin: "2 powr real_of_int p \<le> \<bar>v\<bar>" "\<bar>v\<bar> < 2 powr (real_of_int p + 1)"
    using floor_log_eq_powr_iff [of "\<bar>v\<bar>" 2 p] vpos by (simp_all add: p_def)
  have "\<bar>v\<bar> = real_of_int \<bar>m\<bar> * 2 powr real_of_int j" by (simp add: v_def abs_mult)
  also have "\<dots> < 2 ^ 24 * 2 powr real_of_int j"
  proof -
    have "real_of_int \<bar>m\<bar> < real_of_int (2 ^ 24)" using m by (simp only: of_int_less_iff)
    then have "real_of_int \<bar>m\<bar> < 2 ^ 24" by simp
    then show ?thesis by (simp add: mult_strict_right_mono)
  qed
  also have "\<dots> = 2 powr (real_of_int j + 24)" by (simp add: powr_add)
  finally have "2 powr real_of_int p < 2 powr (real_of_int j + 24)" using bin(1) by linarith
  then have "real_of_int p < real_of_int j + 24" by simp
  then have "p < j + 24" by linarith
  then have d: "0 \<le> j - p + 23" by linarith
  define n where "n = nat (j - p + 23)"
  have "real_of_int j - (real_of_int p - 23) = real n" using d by (simp add: n_def)
  then have "2 powr real_of_int j / 2 powr (real_of_int p - 23) = 2 powr real n"
    by (simp add: powr_diff [symmetric])
  then have "real_of_int m * (2 powr real_of_int j / 2 powr (real_of_int p - 23))
      = real_of_int m * 2 ^ n"
    by (simp only: powr_realpow)
  then have q: "v / 2 powr (real_of_int p - 23) = real_of_int (m * 2 ^ n)"
    by (simp add: v_def)
  have "f32 v = real_of_int (round_even (v / 2 powr (real_of_int p - 23))) * 2 powr (real_of_int p - 23)"
    using bin by (rule f32_binade)
  also have "\<dots> = (v / 2 powr (real_of_int p - 23)) * 2 powr (real_of_int p - 23)"
    unfolding q by (simp only: round_even_int)
  also have "\<dots> = v" by simp
  finally show ?thesis by (simp add: v_def)
qed

lemma f32_int: "\<bar>m\<bar> < 2 ^ 24 \<Longrightarrow> f32 (real_of_int m) = real_of_int m"
  using f32_exact [of m 0] by simp

lemma f32_half: "\<bar>m\<bar> < 2 ^ 24 \<Longrightarrow> f32 (real_of_int m / 2) = real_of_int m / 2"
  using f32_exact [of m "- 1"] by (simp add: powr_minus field_simps)

lemma f32_dyadic: "\<bar>m\<bar> < 2 ^ 24 \<Longrightarrow> f32 (real_of_int m / 2 ^ n) = real_of_int m / 2 ^ n"
  using f32_exact [of m "- int n"] by (simp add: powr_minus powr_realpow field_simps)

lemma f32_zero [simp]: "f32 0 = 0"
  by (simp add: f32_def)

lemma f32_ties:
  "f32 16777217 = 16777216" "f32 (33554433 / 2) = 16777216" "f32 (33554431 / 2) = 16777216"
proof -
  show "f32 16777217 = 16777216"
    using f32_binade [of 24 16777217] by (simp add: round_even_def)
  show "f32 (33554433 / 2) = 16777216"
    using f32_binade [of 24 "33554433 / 2"] by (simp add: round_even_def)
  show "f32 (33554431 / 2) = 16777216"
    using f32_binade [of 23 "33554431 / 2"] by (simp add: round_even_def)
qed

lemma f32_small:
  "f32 (- 8) = - 8" "f32 (- 7) = - 7" "f32 (- 6) = - 6" "f32 (- 5) = - 5" "f32 (- 4) = - 4"
  "f32 (- 3) = - 3" "f32 (- 2) = - 2" "f32 (- 1) = - 1" "f32 (1) = 1" "f32 (2) = 2"
  "f32 (3) = 3" "f32 (4) = 4" "f32 (5) = 5" "f32 (6) = 6" "f32 (7) = 7" "f32 (8) = 8"
  "f32 (- (15 / 2)) = - (15 / 2)" "f32 (- (13 / 2)) = - (13 / 2)"
  "f32 (- (11 / 2)) = - (11 / 2)" "f32 (- (9 / 2)) = - (9 / 2)" "f32 (- (7 / 2)) = - (7 / 2)"
  "f32 (- (5 / 2)) = - (5 / 2)" "f32 (- (3 / 2)) = - (3 / 2)" "f32 (- (1 / 2)) = - (1 / 2)"
  "f32 (1 / 2) = 1 / 2" "f32 (3 / 2) = 3 / 2" "f32 (5 / 2) = 5 / 2" "f32 (7 / 2) = 7 / 2"
  "f32 (9 / 2) = 9 / 2" "f32 (11 / 2) = 11 / 2" "f32 (13 / 2) = 13 / 2"
  "f32 (15 / 2) = 15 / 2" "f32 (- (15 / 4)) = - (15 / 4)" "f32 (- (13 / 4)) = - (13 / 4)"
  "f32 (- (11 / 4)) = - (11 / 4)" "f32 (- (9 / 4)) = - (9 / 4)" "f32 (- (7 / 4)) = - (7 / 4)"
  "f32 (- (5 / 4)) = - (5 / 4)" "f32 (- (3 / 4)) = - (3 / 4)" "f32 (- (1 / 4)) = - (1 / 4)"
  "f32 (1 / 4) = 1 / 4" "f32 (3 / 4) = 3 / 4" "f32 (5 / 4) = 5 / 4" "f32 (7 / 4) = 7 / 4"
  "f32 (9 / 4) = 9 / 4" "f32 (11 / 4) = 11 / 4" "f32 (13 / 4) = 13 / 4"
  "f32 (15 / 4) = 15 / 4" "f32 (- (7 / 8)) = - (7 / 8)" "f32 (- (5 / 8)) = - (5 / 8)"
  "f32 (- (3 / 8)) = - (3 / 8)" "f32 (- (1 / 8)) = - (1 / 8)" "f32 (1 / 8) = 1 / 8"
  "f32 (3 / 8) = 3 / 8" "f32 (5 / 8) = 5 / 8" "f32 (7 / 8) = 7 / 8"
proof -
  show "f32 (- 8) = - 8" using f32_dyadic [of "- 8" 0] by simp
  show "f32 (- 7) = - 7" using f32_dyadic [of "- 7" 0] by simp
  show "f32 (- 6) = - 6" using f32_dyadic [of "- 6" 0] by simp
  show "f32 (- 5) = - 5" using f32_dyadic [of "- 5" 0] by simp
  show "f32 (- 4) = - 4" using f32_dyadic [of "- 4" 0] by simp
  show "f32 (- 3) = - 3" using f32_dyadic [of "- 3" 0] by simp
  show "f32 (- 2) = - 2" using f32_dyadic [of "- 2" 0] by simp
  show "f32 (- 1) = - 1" using f32_dyadic [of "- 1" 0] by simp
  show "f32 (1) = 1" using f32_dyadic [of 1 0] by simp
  show "f32 (2) = 2" using f32_dyadic [of 2 0] by simp
  show "f32 (3) = 3" using f32_dyadic [of 3 0] by simp
  show "f32 (4) = 4" using f32_dyadic [of 4 0] by simp
  show "f32 (5) = 5" using f32_dyadic [of 5 0] by simp
  show "f32 (6) = 6" using f32_dyadic [of 6 0] by simp
  show "f32 (7) = 7" using f32_dyadic [of 7 0] by simp
  show "f32 (8) = 8" using f32_dyadic [of 8 0] by simp
  show "f32 (- (15 / 2)) = - (15 / 2)" using f32_dyadic [of "- 15" 1] by simp
  show "f32 (- (13 / 2)) = - (13 / 2)" using f32_dyadic [of "- 13" 1] by simp
  show "f32 (- (11 / 2)) = - (11 / 2)" using f32_dyadic [of "- 11" 1] by simp
  show "f32 (- (9 / 2)) = - (9 / 2)" using f32_dyadic [of "- 9" 1] by simp
  show "f32 (- (7 / 2)) = - (7 / 2)" using f32_dyadic [of "- 7" 1] by simp
  show "f32 (- (5 / 2)) = - (5 / 2)" using f32_dyadic [of "- 5" 1] by simp
  show "f32 (- (3 / 2)) = - (3 / 2)" using f32_dyadic [of "- 3" 1] by simp
  show "f32 (- (1 / 2)) = - (1 / 2)" using f32_dyadic [of "- 1" 1] by simp
  show "f32 (1 / 2) = 1 / 2" using f32_dyadic [of 1 1] by simp
  show "f32 (3 / 2) = 3 / 2" using f32_dyadic [of 3 1] by simp
  show "f32 (5 / 2) = 5 / 2" using f32_dyadic [of 5 1] by simp
  show "f32 (7 / 2) = 7 / 2" using f32_dyadic [of 7 1] by simp
  show "f32 (9 / 2) = 9 / 2" using f32_dyadic [of 9 1] by simp
  show "f32 (11 / 2) = 11 / 2" using f32_dyadic [of 11 1] by simp
  show "f32 (13 / 2) = 13 / 2" using f32_dyadic [of 13 1] by simp
  show "f32 (15 / 2) = 15 / 2" using f32_dyadic [of 15 1] by simp
  show "f32 (- (15 / 4)) = - (15 / 4)" using f32_dyadic [of "- 15" 2] by simp
  show "f32 (- (13 / 4)) = - (13 / 4)" using f32_dyadic [of "- 13" 2] by simp
  show "f32 (- (11 / 4)) = - (11 / 4)" using f32_dyadic [of "- 11" 2] by simp
  show "f32 (- (9 / 4)) = - (9 / 4)" using f32_dyadic [of "- 9" 2] by simp
  show "f32 (- (7 / 4)) = - (7 / 4)" using f32_dyadic [of "- 7" 2] by simp
  show "f32 (- (5 / 4)) = - (5 / 4)" using f32_dyadic [of "- 5" 2] by simp
  show "f32 (- (3 / 4)) = - (3 / 4)" using f32_dyadic [of "- 3" 2] by simp
  show "f32 (- (1 / 4)) = - (1 / 4)" using f32_dyadic [of "- 1" 2] by simp
  show "f32 (1 / 4) = 1 / 4" using f32_dyadic [of 1 2] by simp
  show "f32 (3 / 4) = 3 / 4" using f32_dyadic [of 3 2] by simp
  show "f32 (5 / 4) = 5 / 4" using f32_dyadic [of 5 2] by simp
  show "f32 (7 / 4) = 7 / 4" using f32_dyadic [of 7 2] by simp
  show "f32 (9 / 4) = 9 / 4" using f32_dyadic [of 9 2] by simp
  show "f32 (11 / 4) = 11 / 4" using f32_dyadic [of 11 2] by simp
  show "f32 (13 / 4) = 13 / 4" using f32_dyadic [of 13 2] by simp
  show "f32 (15 / 4) = 15 / 4" using f32_dyadic [of 15 2] by simp
  show "f32 (- (7 / 8)) = - (7 / 8)" using f32_dyadic [of "- 7" 3] by simp
  show "f32 (- (5 / 8)) = - (5 / 8)" using f32_dyadic [of "- 5" 3] by simp
  show "f32 (- (3 / 8)) = - (3 / 8)" using f32_dyadic [of "- 3" 3] by simp
  show "f32 (- (1 / 8)) = - (1 / 8)" using f32_dyadic [of "- 1" 3] by simp
  show "f32 (1 / 8) = 1 / 8" using f32_dyadic [of 1 3] by simp
  show "f32 (3 / 8) = 3 / 8" using f32_dyadic [of 3 3] by simp
  show "f32 (5 / 8) = 5 / 8" using f32_dyadic [of 5 3] by simp
  show "f32 (7 / 8) = 7 / 8" using f32_dyadic [of 7 3] by simp
qed

lemma f32_large:
  "f32 8388608 = 8388608" "f32 (16777217 / 2) = 8388608" "f32 (16777215 / 2) = 16777215 / 2"
  "f32 (16777211 / 2) = 16777211 / 2" "f32 8388606 = 8388606" "f32 8388607 = 8388607"
  "f32 8388609 = 8388609" "f32 16777216 = 16777216" "f32 16777218 = 16777218"
  "f32 (33554437 / 2) = 16777218" "f32 (33554435 / 2) = 16777218"
proof -
  show "f32 8388608 = 8388608" using f32_int [of 8388608] by simp
  show "f32 (16777217 / 2) = 8388608"
    using f32_binade [of 23 "16777217 / 2"] by (simp add: round_even_def)
  show "f32 (16777215 / 2) = 16777215 / 2" using f32_half [of 16777215] by simp
  show "f32 (16777211 / 2) = 16777211 / 2" using f32_half [of 16777211] by simp
  show "f32 8388606 = 8388606" using f32_int [of 8388606] by simp
  show "f32 8388607 = 8388607" using f32_int [of 8388607] by simp
  show "f32 8388609 = 8388609" using f32_int [of 8388609] by simp
  show "f32 16777216 = 16777216"
    using f32_binade [of 24 16777216] by (simp add: round_even_def)
  show "f32 16777218 = 16777218"
    using f32_binade [of 24 16777218] by (simp add: round_even_def)
  show "f32 (33554437 / 2) = 16777218"
    using f32_binade [of 24 "33554437 / 2"] by (simp add: round_even_def)
  show "f32 (33554435 / 2) = 16777218"
    using f32_binade [of 24 "33554435 / 2"] by (simp add: round_even_def)
qed

lemma ceiling_small:
  "\<lceil>- (3 / 4) :: real\<rceil> = 0" "\<lceil>- (1 / 4) :: real\<rceil> = 0" "\<lceil>1 / 4 :: real\<rceil> = 1"
  "\<lceil>3 / 4 :: real\<rceil> = 1" "\<lceil>- (1 / 2) :: real\<rceil> = 0" "\<lceil>1 / 2 :: real\<rceil> = 1"
  "\<lceil>- (5 / 4) :: real\<rceil> = - 1" "\<lceil>- (9 / 4) :: real\<rceil> = - 2" "\<lceil>- (5 / 2) :: real\<rceil> = - 2"
  by (rule ceiling_unique; simp)+

subsection \<open>Sums over a reduction domain\<close>

lemma rdom_sum_eq_sum: "rdom_sum n f = (\<Sum>k<n. f k)"
  by (induction n) simp_all


lemma rdom_sum_val_Num:
  "(\<And>k. k < n \<Longrightarrow> f k = Num (v k)) \<Longrightarrow> rdom_sum_val n f = Num (rdom_sum n v)"
  by (induction n) simp_all

lemma vadd_NotNum [simp]: "vadd a NotNum = NotNum" "vadd NotNum a = NotNum"
  by (cases a; simp)+

lemma vmul_NotNum [simp]: "vmul a NotNum = NotNum" "vmul NotNum a = NotNum"
  by (cases a; simp)+

lemma rdom_sum_val_NotNum:
  "k < n \<Longrightarrow> f k = NotNum \<Longrightarrow> rdom_sum_val n f = NotNum"
proof (induction n)
  case 0
  then show ?case by simp
next
  case (Suc n)
  show ?case
  proof (cases "k = n")
    case True
    with Suc.prems show ?thesis by simp
  next
    case False
    with Suc.prems have "k < n" by simp
    with Suc have "rdom_sum_val n f = NotNum" by simp
    then show ?thesis by simp
  qed
qed

lemma rdom_sum_opt_Some:
  "(\<And>k. k < n \<Longrightarrow> f k = Some (v k)) \<Longrightarrow> rdom_sum_opt n f = Some (rdom_sum_val n v)"
  by (induction n) (simp_all add: fadd_def)

lemma rdom_sum_opt_None:
  "k < n \<Longrightarrow> f k = None \<Longrightarrow> rdom_sum_opt n f = None"
proof (induction n)
  case 0
  then show ?case by simp
next
  case (Suc n)
  show ?case
  proof (cases "k = n")
    case True
    with Suc.prems show ?thesis by (simp add: fadd_def split: option.splits)
  next
    case False
    with Suc.prems have "k < n" by simp
    with Suc have "rdom_sum_opt n f = None" by simp
    then show ?thesis by (simp add: fadd_def)
  qed
qed

lemma fmul_Some [simp]: "fmul (Some u) (Some v) = Some (vmul u v)"
  by (simp add: fmul_def)

lemma fmul_None [simp]: "fmul a None = None" "fmul None a = None"
  by (simp_all add: fmul_def split: option.splits)

lemma rdom_sum_swap:
  "rdom_sum n (\<lambda>j. b j * rdom_sum n (\<lambda>i. a i * s i j)) =
   rdom_sum n (\<lambda>i. a i * rdom_sum n (\<lambda>j. b j * s i j))"
proof -
  have "(\<Sum>j<n. b j * (\<Sum>i<n. a i * s i j)) = (\<Sum>j<n. \<Sum>i<n. a i * (b j * s i j))"
    by (simp add: sum_distrib_left mult_ac)
  also have "\<dots> = (\<Sum>i<n. \<Sum>j<n. a i * (b j * s i j))"
    by (rule sum.swap)
  also have "\<dots> = (\<Sum>i<n. a i * (\<Sum>j<n. b j * s i j))"
    by (simp add: sum_distrib_left)
  finally show ?thesis by (simp add: rdom_sum_eq_sum)
qed

lemma rdom_sum_val_swap:
  "rdom_sum_val n (\<lambda>j. vmul (b j) (rdom_sum_val n (\<lambda>i. vmul (a i) (t i j)))) =
   rdom_sum_val n (\<lambda>i. vmul (a i) (rdom_sum_val n (\<lambda>j. vmul (b j) (t i j))))"
proof (cases "(\<forall>i<n. a i \<noteq> NotNum) \<and> (\<forall>j<n. b j \<noteq> NotNum) \<and> (\<forall>i<n. \<forall>j<n. t i j \<noteq> NotNum)")
  case True
  define a' where "a' i = (case a i of Num r \<Rightarrow> r | NotNum \<Rightarrow> 0)" for i
  define b' where "b' j = (case b j of Num r \<Rightarrow> r | NotNum \<Rightarrow> 0)" for j
  define t' where "t' i j = (case t i j of Num r \<Rightarrow> r | NotNum \<Rightarrow> 0)" for i j
  have a: "a i = Num (a' i)" if "i < n" for i
    using True that by (cases "a i") (simp_all add: a'_def)
  have b: "b j = Num (b' j)" if "j < n" for j
    using True that by (cases "b j") (simp_all add: b'_def)
  have t: "t i j = Num (t' i j)" if "i < n" "j < n" for i j
    using True that by (cases "t i j") (simp_all add: t'_def)
  have inner1: "rdom_sum_val n (\<lambda>i. vmul (a i) (t i j)) = Num (rdom_sum n (\<lambda>i. a' i * t' i j))"
    if "j < n" for j
    by (rule rdom_sum_val_Num) (simp add: a t that)
  have inner2: "rdom_sum_val n (\<lambda>j. vmul (b j) (t i j)) = Num (rdom_sum n (\<lambda>j. b' j * t' i j))"
    if "i < n" for i
    by (rule rdom_sum_val_Num) (simp add: b t that)
  have l: "rdom_sum_val n (\<lambda>j. vmul (b j) (rdom_sum_val n (\<lambda>i. vmul (a i) (t i j)))) =
      Num (rdom_sum n (\<lambda>j. b' j * rdom_sum n (\<lambda>i. a' i * t' i j)))"
    by (rule rdom_sum_val_Num) (simp add: b inner1)
  have r: "rdom_sum_val n (\<lambda>i. vmul (a i) (rdom_sum_val n (\<lambda>j. vmul (b j) (t i j)))) =
      Num (rdom_sum n (\<lambda>i. a' i * rdom_sum n (\<lambda>j. b' j * t' i j)))"
    by (rule rdom_sum_val_Num) (simp add: a inner2)
  show ?thesis unfolding l r
    using rdom_sum_swap [of n b' a' t'] by (simp only:)
next
  case False
  then consider i where "i < n" "a i = NotNum" | j where "j < n" "b j = NotNum"
    | i j where "i < n" "j < n" "t i j = NotNum" by blast
  then have "rdom_sum_val n (\<lambda>j. vmul (b j) (rdom_sum_val n (\<lambda>i. vmul (a i) (t i j)))) = NotNum
    \<and> rdom_sum_val n (\<lambda>i. vmul (a i) (rdom_sum_val n (\<lambda>j. vmul (b j) (t i j)))) = NotNum"
  proof cases
    case 1
    then have n: "0 < n" by simp
    have "rdom_sum_val n (\<lambda>i. vmul (a i) (t i j)) = NotNum" for j
      by (rule rdom_sum_val_NotNum [OF 1(1)]) (simp add: 1)
    then have "rdom_sum_val n (\<lambda>j. vmul (b j) (rdom_sum_val n (\<lambda>i. vmul (a i) (t i j)))) = NotNum"
      by (intro rdom_sum_val_NotNum [OF n]) simp
    moreover have "rdom_sum_val n (\<lambda>i. vmul (a i) (rdom_sum_val n (\<lambda>j. vmul (b j) (t i j)))) = NotNum"
      by (rule rdom_sum_val_NotNum [OF 1(1)]) (simp add: 1)
    ultimately show ?thesis by simp
  next
    case 2
    then have n: "0 < n" by simp
    have "rdom_sum_val n (\<lambda>j. vmul (b j) (t i j)) = NotNum" for i
      by (rule rdom_sum_val_NotNum [OF 2(1)]) (simp add: 2)
    then have "rdom_sum_val n (\<lambda>i. vmul (a i) (rdom_sum_val n (\<lambda>j. vmul (b j) (t i j)))) = NotNum"
      by (intro rdom_sum_val_NotNum [OF n]) simp
    moreover have "rdom_sum_val n (\<lambda>j. vmul (b j) (rdom_sum_val n (\<lambda>i. vmul (a i) (t i j)))) = NotNum"
      by (rule rdom_sum_val_NotNum [OF 2(1)]) (simp add: 2)
    ultimately show ?thesis by simp
  next
    case 3
    have "rdom_sum_val n (\<lambda>i. vmul (a i) (t i j)) = NotNum"
      by (rule rdom_sum_val_NotNum [OF 3(1)]) (simp add: 3)
    then have "rdom_sum_val n (\<lambda>j. vmul (b j) (rdom_sum_val n (\<lambda>i. vmul (a i) (t i j)))) = NotNum"
      by (intro rdom_sum_val_NotNum [OF 3(2)]) simp
    moreover have "rdom_sum_val n (\<lambda>j. vmul (b j) (t i j)) = NotNum"
      by (rule rdom_sum_val_NotNum [OF 3(2)]) (simp add: 3)
    then have "rdom_sum_val n (\<lambda>i. vmul (a i) (rdom_sum_val n (\<lambda>j. vmul (b j) (t i j)))) = NotNum"
      by (intro rdom_sum_val_NotNum [OF 3(1)]) simp
    ultimately show ?thesis by simp
  qed
  then show ?thesis by simp
qed

lemma rdom_sum_opt_swap:
  "rdom_sum_opt n (\<lambda>j. fmul (Some (b j)) (rdom_sum_opt n (\<lambda>i. fmul (Some (a i)) (s i j)))) =
   rdom_sum_opt n (\<lambda>i. fmul (Some (a i)) (rdom_sum_opt n (\<lambda>j. fmul (Some (b j)) (s i j))))"
proof (cases "\<forall>i<n. \<forall>j<n. s i j \<noteq> None")
  case True
  have s: "s i j = Some (the (s i j))" if "i < n" "j < n" for i j
    using True that by simp
  have inner1: "rdom_sum_opt n (\<lambda>i. fmul (Some (a i)) (s i j)) =
      Some (rdom_sum_val n (\<lambda>i. vmul (a i) (the (s i j))))" if "j < n" for j
  proof (rule rdom_sum_opt_Some)
    fix k assume "k < n"
    then show "fmul (Some (a k)) (s k j) = Some (vmul (a k) (the (s k j)))"
      using s [OF _ that, of k] by (metis fmul_Some)
  qed
  have inner2: "rdom_sum_opt n (\<lambda>j. fmul (Some (b j)) (s i j)) =
      Some (rdom_sum_val n (\<lambda>j. vmul (b j) (the (s i j))))" if "i < n" for i
  proof (rule rdom_sum_opt_Some)
    fix k assume "k < n"
    then show "fmul (Some (b k)) (s i k) = Some (vmul (b k) (the (s i k)))"
      using s [OF that, of k] by (metis fmul_Some)
  qed
  have l: "rdom_sum_opt n (\<lambda>j. fmul (Some (b j)) (rdom_sum_opt n (\<lambda>i. fmul (Some (a i)) (s i j)))) =
      Some (rdom_sum_val n (\<lambda>j. vmul (b j) (rdom_sum_val n (\<lambda>i. vmul (a i) (the (s i j))))))"
    by (rule rdom_sum_opt_Some) (simp add: inner1)
  have r: "rdom_sum_opt n (\<lambda>i. fmul (Some (a i)) (rdom_sum_opt n (\<lambda>j. fmul (Some (b j)) (s i j)))) =
      Some (rdom_sum_val n (\<lambda>i. vmul (a i) (rdom_sum_val n (\<lambda>j. vmul (b j) (the (s i j))))))"
    by (rule rdom_sum_opt_Some) (simp add: inner2)
  show ?thesis unfolding l r
    using rdom_sum_val_swap [of n b a "\<lambda>i j. the (s i j)"] by (simp only:)
next
  case False
  then obtain i j where ij: "i < n" "j < n" "s i j = None" by blast
  have "rdom_sum_opt n (\<lambda>i. fmul (Some (a i)) (s i j)) = None"
    by (rule rdom_sum_opt_None [OF ij(1)]) (simp add: ij)
  then have "rdom_sum_opt n (\<lambda>j. fmul (Some (b j)) (rdom_sum_opt n (\<lambda>i. fmul (Some (a i)) (s i j)))) = None"
    by (intro rdom_sum_opt_None [OF ij(2)]) simp
  moreover have "rdom_sum_opt n (\<lambda>j. fmul (Some (b j)) (s i j)) = None"
    by (rule rdom_sum_opt_None [OF ij(2)]) (simp add: ij)
  then have "rdom_sum_opt n (\<lambda>i. fmul (Some (a i)) (rdom_sum_opt n (\<lambda>j. fmul (Some (b j)) (s i j)))) = None"
    by (intro rdom_sum_opt_None [OF ij(1)]) simp
  ultimately show ?thesis by simp
qed




lemma rdom_sum_2: "rdom_sum 2 f = f 0 + f (Suc 0)"
  by (simp add: eval_nat_numeral)

lemma rdom_sum_opt_2: "rdom_sum_opt 2 f = fadd (fadd (Some (Num 0)) (f 0)) (f (Suc 0))"
  by (simp add: eval_nat_numeral)

lemma rdom_sum_4: "rdom_sum 4 f = f 0 + f (Suc 0) + f 2 + f 3"
  by (simp add: eval_nat_numeral)

lemma rdom_sum_opt_4:
  "rdom_sum_opt 4 f = fadd (fadd (fadd (fadd (Some (Num 0)) (f 0)) (f (Suc 0))) (f 2)) (f 3)"
  by (simp add: eval_nat_numeral)

lemma rdom_sum_opt_defined:
  assumes "\<And>k. k < n \<Longrightarrow> \<exists>v. f k = Some v"
  shows "\<exists>w. rdom_sum_opt n f = Some w"
proof -
  have "rdom_sum_opt n f = Some (rdom_sum_val n (\<lambda>k. the (f k)))"
    by (rule rdom_sum_opt_Some) (use assms in force)
  then show ?thesis by blast
qed

subsection \<open>Values of the kernels\<close>






lemma kernel_cubic_quarters:
  "kernel_cubic (- (7 / 4)) = - (3 / 128)" "kernel_cubic (- (3 / 4)) = 29 / 128"
  "kernel_cubic (1 / 4) = 111 / 128" "kernel_cubic (5 / 4) = - (9 / 128)"
  "kernel_cubic (- (5 / 4)) = - (9 / 128)" "kernel_cubic (- (1 / 4)) = 111 / 128"
  "kernel_cubic (3 / 4) = 29 / 128" "kernel_cubic (7 / 4) = - (3 / 128)"
  by (simp_all add: kernel_cubic_def)

lemma deriv_glue:
  fixes f g h :: "real \<Rightarrow> real"
  assumes g: "(g has_real_derivative D) (at a)"
    and h: "(h has_real_derivative D) (at a)"
    and gh: "g a = h a"
    and d: "0 < d"
    and f: "\<And>x. \<bar>x - a\<bar> < d \<Longrightarrow> f x = (if x < a then g x else h x)"
  shows "(f has_real_derivative D) (at a)"
proof -
  let ?F = "\<lambda>x. if x < a then g x else h x"
  have "((\<lambda>y. if y < a then (g y - g a) / (y - a) else (h y - h a) / (y - a)) \<longlongrightarrow> D) (at a)"
  proof (rule filterlim_If)
    show "LIM x inf (at a) (principal {y. y < a}). (g x - g a) / (x - a) :> nhds D"
      using g unfolding has_field_derivative_iff by (rule filterlim_mono) simp_all
    show "LIM x inf (at a) (principal {y. \<not> y < a}). (h x - h a) / (x - a) :> nhds D"
      using h unfolding has_field_derivative_iff by (rule filterlim_mono) simp_all
  qed
  moreover have "(\<lambda>y. if y < a then (g y - g a) / (y - a) else (h y - h a) / (y - a))
      = (\<lambda>y. (?F y - ?F a) / (y - a))"
    using gh by auto
  ultimately have F: "(?F has_real_derivative D) (at a)"
    unfolding has_field_derivative_iff by simp
  show ?thesis
  proof (rule has_field_derivative_transform_within [OF F d])
    show "a \<in> UNIV" by simp
    fix x assume "x \<in> (UNIV::real set)" "dist x a < d"
    then show "?F x = f x" using f [of x] by (simp add: dist_real_def)
  qed
qed

lemma kernel_cubic_even: "kernel_cubic (- x) = kernel_cubic x"
  by (simp add: kernel_cubic_def)

lemma kernel_cubic_deriv_1: "(kernel_cubic has_real_derivative (- (1/2))) (at 1)"
proof (rule deriv_glue [where d = 1
      and g = "\<lambda>t. (3/2) * t^3 - (5/2) * t^2 + 1"
      and h = "\<lambda>t. - (1/2) * t^3 + (5/2) * t^2 - 4 * t + 2"])
  show "((\<lambda>t::real. (3/2) * t^3 - (5/2) * t^2 + 1) has_real_derivative - (1/2)) (at 1)"
    by (auto intro!: derivative_eq_intros)
  show "((\<lambda>t::real. - (1/2) * t^3 + (5/2) * t^2 - 4 * t + 2) has_real_derivative - (1/2)) (at 1)"
    by (auto intro!: derivative_eq_intros)
  show "(3/2) * 1^3 - (5/2) * 1^2 + 1 = - (1/2) * 1^3 + (5/2) * 1^2 - 4 * 1 + (2::real)" by simp
  show "(0::real) < 1" by simp
  fix x :: real assume "\<bar>x - 1\<bar> < 1"
  then have "0 < x" "x < 2" by auto
  then show "kernel_cubic x = (if x < 1 then (3/2) * x^3 - (5/2) * x^2 + 1
      else - (1/2) * x^3 + (5/2) * x^2 - 4 * x + 2)"
    by (simp add: kernel_cubic_def Let_def power2_eq_square power3_eq_cube algebra_simps)
qed

lemma kernel_cubic_deriv_2: "(kernel_cubic has_real_derivative 0) (at 2)"
proof (rule deriv_glue [where d = 1
      and g = "\<lambda>t. - (1/2) * t^3 + (5/2) * t^2 - 4 * t + 2"
      and h = "\<lambda>t. 0"])
  show "((\<lambda>t::real. - (1/2) * t^3 + (5/2) * t^2 - 4 * t + 2) has_real_derivative 0) (at 2)"
    by (auto intro!: derivative_eq_intros)
  show "((\<lambda>t::real. 0) has_real_derivative 0) (at 2)" by simp
  show "- (1/2) * 2^3 + (5/2) * 2^2 - 4 * 2 + 2 = (0::real)" by simp
  show "(0::real) < 1" by simp
  fix x :: real assume "\<bar>x - 2\<bar> < 1"
  then have "1 < x" "x < 3" by auto
  then show "kernel_cubic x = (if x < 2 then - (1/2) * x^3 + (5/2) * x^2 - 4 * x + 2 else 0)"
    by (simp add: kernel_cubic_def Let_def power2_eq_square power3_eq_cube algebra_simps)
qed

lemma kernel_cubic_deriv_neg:
  assumes "(kernel_cubic has_real_derivative D) (at x)"
  shows "(kernel_cubic has_real_derivative (- D)) (at (- x))"
proof -
  have "((\<lambda>t. kernel_cubic (- t)) has_real_derivative (- D)) (at (- x))"
    using assms by (simp add: DERIV_mirror)
  then show ?thesis by (simp add: kernel_cubic_even)
qed

lemma kernel_lanczos_vs_spec:
  "kernel_lanczos t = (if t = 0 then 1 else pi\<^sup>2 * lanczos_spec t)"
proof -
  have s3: "sin (pi * 3) = 0" using sin_npi_int [of 3] by simp
  have s3': "sin (pi * (- 3)) = 0" using sin_npi_int [of "- 3"] by simp
  consider "t = 0" | "t = 3" | "t = - 3" | "t \<noteq> 0" "\<bar>t\<bar> < 3" | "\<bar>t\<bar> > 3" by linarith
  then show ?thesis
  proof cases
    case 1 then show ?thesis by (simp add: kernel_lanczos_def)
  next
    case 2 then show ?thesis using s3 by (simp add: kernel_lanczos_def lanczos_spec_def sinc_def)
  next
    case 3 then show ?thesis using s3' by (simp add: kernel_lanczos_def lanczos_spec_def sinc_def)
  next
    case 4 then show ?thesis
      by (auto simp add: kernel_lanczos_def lanczos_spec_def sinc_def power2_eq_square)
  next
    case 5 then show ?thesis
      by (auto simp add: kernel_lanczos_def lanczos_spec_def sinc_def)
  qed
qed

subsection \<open>The boundary handler and the two orders of resampling\<close>

lemma clamped_val_Some:
  assumes "0 < dim0_extent inp" "0 < dim1_extent inp"
    and "dim2_min inp \<le> c" "c < dim2_min inp + dim2_extent inp"
  shows "\<exists>v. clamped_val inp x y c = Some (Num v)"
  using assms
  by (auto simp add: clamped_val_def clamped_def repeat_edge_def input_at_def in_bounds_def clamp_def)



lemma resized_orders_agree: "resized_y_up g inp x y c = resized_x_down g inp x y c"
  unfolding resized_y_up_def resized_x_up_def resized_x_down_def resized_y_down_def
  by (simp only: rdom_sum_opt_swap [of "r_extent g" "kernel_y g y" "kernel_x g x"
      "\<lambda>i j. clamped_val inp (int i + beginx g x) (int j + beginy g y) c"])

lemma output_at_resized:
  "output_at g inp x y c = map_option (\<lambda>v. clamp_val v 0 1) (resized_y_up g inp x y c)"
  by (simp add: output_at_def resized_orders_agree)

lemma resized_defined:
  assumes ne: "0 < dim0_extent inp" "0 < dim1_extent inp"
      "dim2_min inp \<le> c" "c < dim2_min inp + dim2_extent inp"
    and w: "window_x g x" "window_y g y"
  shows "\<exists>v. resized_y_up g inp x y c = Some v"
proof -
  have rx: "\<exists>v. resized_x_up g inp x y' c = Some v" for y'
    unfolding resized_x_up_def
  proof (rule rdom_sum_opt_defined)
    fix k
    obtain v where "clamped_val inp (int k + beginx g x) y' c = Some (Num v)"
      using clamped_val_Some [OF ne] by blast
    then show "\<exists>v. fmul (Some (kernel_x g x k)) (clamped_val inp (int k + beginx g x) y' c) = Some v"
      by simp
  qed
  have "\<exists>v. rdom_sum_opt (r_extent g)
      (\<lambda>r. fmul (Some (kernel_y g y r)) (resized_x_up g inp x (int r + beginy g y) c)) = Some v"
  proof (rule rdom_sum_opt_defined)
    fix k
    obtain v where "resized_x_up g inp x (int k + beginy g y) c = Some v" using rx by blast
    then show "\<exists>v. fmul (Some (kernel_y g y k)) (resized_x_up g inp x (int k + beginy g y) c) = Some v"
      by simp
  qed
  then show ?thesis using w by (simp add: resized_y_up_def)
qed

lemma clamp_val_unit: "0 \<le> clamp_val v 0 1 \<and> clamp_val v 0 1 \<le> 1"
  by (cases v) (simp_all add: clamp_def)

lemma one_tap_resized:
  assumes "r_extent g = 1" "kernel_x g x 0 = Num 1" "kernel_y g y 0 = Num 1"
    and "window_x g x" "window_y g y"
    and "clamped_val inp (beginx g x) (beginy g y) c = Some (Num v)"
  shows "resized_y_up g inp x y c = Some (Num v)"
  using assms by (simp add: resized_y_up_def resized_x_up_def fadd_def)

subsection \<open>Normalised weights\<close>



subsection \<open>Settings that agree except for the order\<close>

lemma same_tables:
  assumes "interpolation_type g = interpolation_type g'" "scale_factor g = scale_factor g'"
    and "kernel_scaling g = kernel_scaling g'"
  shows "resized_y_up g inp x y c = resized_y_up g' inp x y c"
proof -
  have r: "kernel_radius g = kernel_radius g'" "kernel_taps g = kernel_taps g'"
    "r_extent g = r_extent g'"
    using assms by (simp_all add: kernel_radius_def r_extent_def kernel_taps_def)
  have s: "sourcex g = sourcex g'" "sourcey g = sourcey g'"
    using assms by (simp_all add: fun_eq_iff sourcex_def sourcey_def)
  have b: "beginx g = beginx g'" "beginy g = beginy g'"
    by (simp_all add: fun_eq_iff beginx_def beginy_def s r)
  have w: "window_x g = window_x g'" "window_y g = window_y g'"
    by (simp_all add: fun_eq_iff window_x_def window_y_def b r)
  have u: "unnormalized_kernel_x g = unnormalized_kernel_x g'"
    "unnormalized_kernel_y g = unnormalized_kernel_y g'"
    using assms(1,3)
    by (simp_all add: fun_eq_iff unnormalized_kernel_x_def unnormalized_kernel_y_def s b)
  have k: "kernel_x g = kernel_x g'" "kernel_y g = kernel_y g'"
    by (simp_all add: fun_eq_iff kernel_x_def kernel_y_def kernel_sum_x_def kernel_sum_y_def u r)
  show ?thesis
    by (simp add: resized_y_up_def resized_x_up_def k b r w)
qed

subsection \<open>Scale factor 1\<close>



lemma unit_scale_taps:
  assumes "scale_factor g = 1"
  shows "kernel_scaling g = 1"
    and "kernel_radius g = real_of_int (taps (kernel_info (interpolation_type g))) / 2"
    and "kernel_taps g = taps (kernel_info (interpolation_type g))"
    and "r_extent g = nat (taps (kernel_info (interpolation_type g)))"
    and "centre_tap (interpolation_type g) < r_extent g"
proof -
  show ks: "kernel_scaling g = 1" using assms by (simp add: kernel_scaling_def)
  show "kernel_radius g = real_of_int (taps (kernel_info (interpolation_type g))) / 2"
    by (cases "interpolation_type g") (simp_all add: kernel_radius_def ks f32_small)
  show kt: "kernel_taps g = taps (kernel_info (interpolation_type g))"
    by (cases "interpolation_type g") (simp_all add: kernel_taps_def ks f32_small)
  show re: "r_extent g = nat (taps (kernel_info (interpolation_type g)))"
    by (simp add: r_extent_def kt)
  show "centre_tap (interpolation_type g) < r_extent g"
    unfolding re by (cases "interpolation_type g") (simp_all add: centre_tap_def)
qed






subsection \<open>The examples evaluated\<close>

lemma box_down4_geometry:
  "sourcex box_down4 0 = - (3 / 8)" "kernel_radius box_down4 = 1 / 8" "kernel_taps box_down4 = 1"
  "beginx box_down4 0 = 0" "r_extent box_down4 = 1"
proof -
  show s: "sourcex box_down4 0 = - (3 / 8)"
    by (simp add: sourcex_def box_down4_def f32_small)
  show r: "kernel_radius box_down4 = 1 / 8"
    by (simp add: kernel_radius_def kernel_scaling_def box_down4_def f32_small)
  have q: "\<lceil>1 / 4 :: real\<rceil> = 1" by (rule ceiling_unique) simp_all
  have h: "\<lceil>- (1 / 2) :: real\<rceil> = 0" by (rule ceiling_unique) simp_all
  show t: "kernel_taps box_down4 = 1"
    by (simp add: kernel_taps_def kernel_scaling_def box_down4_def f32_small q)
  show "beginx box_down4 0 = 0" by (simp add: beginx_def s r f32_small h)
  show "r_extent box_down4 = 1" by (simp add: r_extent_def t)
qed

lemma box_down4_sum:
  "unnormalized_kernel_x box_down4 0 0 = 0" "kernel_sum_x box_down4 0 = 0"
proof -
  show u: "unnormalized_kernel_x box_down4 0 0 = 0"
    unfolding unnormalized_kernel_x_def box_down4_geometry
    by (simp add: box_down4_def kernel_scaling_def f32_small kernel_box_def)
  show "kernel_sum_x box_down4 0 = 0"
    by (simp add: kernel_sum_x_def box_down4_geometry u)
qed





lemma small_coordinate:
  fixes x :: int
  assumes "x \<in> {0..3}"
  shows "x = 0 \<or> x = 1 \<or> x = 2 \<or> x = 3"
  using assms by auto

lemma box_up2_fields:
  "interpolation_type box_up2 = Box" "upsample box_up2" "scale_factor box_up2 = 2"
  by (simp_all add: box_up2_def)

lemma box_up2_taps:
  "kernel_scaling box_up2 = 1" "kernel_radius box_up2 = 1 / 2" "kernel_taps box_up2 = 1"
  "r_extent box_up2 = 1"
proof -
  show s: "kernel_scaling box_up2 = 1" by (simp add: kernel_scaling_def box_up2_fields)
  show "kernel_radius box_up2 = 1 / 2" by (simp add: kernel_radius_def s box_up2_fields f32_small)
  show t: "kernel_taps box_up2 = 1" by (simp add: kernel_taps_def s box_up2_fields f32_small)
  show "r_extent box_up2 = 1" by (simp add: r_extent_def t)
qed

lemma box_up2_source:
  "sourcex box_up2 0 = - (1 / 4)" "sourcex box_up2 1 = 1 / 4"
  "sourcex box_up2 2 = 3 / 4" "sourcex box_up2 3 = 5 / 4"
  "sourcey box_up2 0 = - (1 / 4)" "sourcey box_up2 1 = 1 / 4"
  "sourcey box_up2 2 = 3 / 4" "sourcey box_up2 3 = 5 / 4"
  by (simp_all add: sourcex_def sourcey_def box_up2_fields f32_small)

lemma box_up2_begin:
  assumes "x \<in> {0..3}"
  shows "beginx box_up2 x = x div 2" "beginy box_up2 x = x div 2"
  using small_coordinate [OF assms]
  by (auto simp add: beginx_def beginy_def box_up2_source box_up2_taps f32_small ceiling_small)

lemma box_up2_kernel:
  assumes "x \<in> {0..3}"
  shows "kernel_x box_up2 x 0 = Num 1" "kernel_y box_up2 x 0 = Num 1"
proof -
  have "unnormalized_kernel_x box_up2 x 0 = 1"
    using small_coordinate [OF assms]
    unfolding unnormalized_kernel_x_def box_up2_begin(1) [OF assms] box_up2_taps
    by (auto simp add: box_up2_source f32_small box_up2_fields kernel_box_def)
  then show "kernel_x box_up2 x 0 = Num 1"
    by (simp add: kernel_x_def kernel_sum_x_def box_up2_taps fdiv_def)
  have "unnormalized_kernel_y box_up2 x 0 = 1"
    using small_coordinate [OF assms]
    unfolding unnormalized_kernel_y_def box_up2_begin(2) [OF assms] box_up2_taps
    by (auto simp add: box_up2_source f32_small box_up2_fields kernel_box_def)
  then show "kernel_y box_up2 x 0 = Num 1"
    by (simp add: kernel_y_def kernel_sum_y_def box_up2_taps fdiv_def)
qed

lemma box_up2_window:
  assumes "x \<in> {0..3}"
  shows "window_x box_up2 x" "window_y box_up2 x"
  using small_coordinate [OF assms]
  unfolding window_x_def window_y_def box_up2_begin [OF assms] box_up2_taps
  by (auto simp add: int32_def)

lemma box_down2_fields:
  "interpolation_type box_down2 = Box" "\<not> upsample box_down2" "scale_factor box_down2 = 2"
  by (simp_all add: box_down2_def)

lemma box_down2_taps:
  "kernel_scaling box_down2 = 2" "kernel_radius box_down2 = 1 / 4" "kernel_taps box_down2 = 1"
  "r_extent box_down2 = 1"
proof -
  show s: "kernel_scaling box_down2 = 2" by (simp add: kernel_scaling_def box_down2_fields)
  show "kernel_radius box_down2 = 1 / 4"
    by (simp add: kernel_radius_def s box_down2_fields f32_small)
  show t: "kernel_taps box_down2 = 1"
    by (simp add: kernel_taps_def s box_down2_fields f32_small ceiling_small)
  show "r_extent box_down2 = 1" by (simp add: r_extent_def t)
qed

lemma box_down2_source:
  "sourcex box_down2 0 = - (1 / 4)" "sourcex box_down2 1 = 1 / 4"
  "sourcex box_down2 2 = 3 / 4" "sourcex box_down2 3 = 5 / 4"
  "sourcey box_down2 0 = - (1 / 4)" "sourcey box_down2 1 = 1 / 4"
  "sourcey box_down2 2 = 3 / 4" "sourcey box_down2 3 = 5 / 4"
  by (simp_all add: sourcex_def sourcey_def box_down2_fields f32_small)

lemma box_down2_begin:
  assumes "x \<in> {0..3}"
  shows "beginx box_down2 x = x div 2" "beginy box_down2 x = x div 2"
  using small_coordinate [OF assms]
  by (auto simp add: beginx_def beginy_def box_down2_source box_down2_taps f32_small ceiling_small)

lemma box_down2_kernel:
  assumes "x \<in> {0..3}"
  shows "kernel_x box_down2 x 0 = Num 1" "kernel_y box_down2 x 0 = Num 1"
proof -
  have "unnormalized_kernel_x box_down2 x 0 = 1"
    using small_coordinate [OF assms]
    unfolding unnormalized_kernel_x_def box_down2_begin(1) [OF assms] box_down2_taps
    by (auto simp add: box_down2_source f32_small box_down2_fields kernel_box_def)
  then show "kernel_x box_down2 x 0 = Num 1"
    by (simp add: kernel_x_def kernel_sum_x_def box_down2_taps fdiv_def)
  have "unnormalized_kernel_y box_down2 x 0 = 1"
    using small_coordinate [OF assms]
    unfolding unnormalized_kernel_y_def box_down2_begin(2) [OF assms] box_down2_taps
    by (auto simp add: box_down2_source f32_small box_down2_fields kernel_box_def)
  then show "kernel_y box_down2 x 0 = Num 1"
    by (simp add: kernel_y_def kernel_sum_y_def box_down2_taps fdiv_def)
qed

lemma box_down2_window:
  assumes "x \<in> {0..3}"
  shows "window_x box_down2 x" "window_y box_down2 x"
  using small_coordinate [OF assms]
  unfolding window_x_def window_y_def box_down2_begin [OF assms] box_down2_taps
  by (auto simp add: int32_def)

lemma checker_blocks:
  assumes "x \<in> {0..3}" "y \<in> {0..3}"
  shows "clamped_val checker (x div 2) (y div 2) 0 = Some (Num (samples checker (x div 2) (y div 2) 0))"
    and "0 \<le> samples checker (x div 2) (y div 2) 0" "samples checker (x div 2) (y div 2) 0 \<le> 1"
proof -
  from assms have d: "x div 2 = 0 \<or> x div 2 = 1" "y div 2 = 0 \<or> y div 2 = 1" by auto
  then show "clamped_val checker (x div 2) (y div 2) 0 = Some (Num (samples checker (x div 2) (y div 2) 0))"
    by (auto simp add: clamped_val_def clamped_def repeat_edge_def input_at_def in_bounds_def
        clamp_def checker_def)
  show "0 \<le> samples checker (x div 2) (y div 2) 0" "samples checker (x div 2) (y div 2) 0 \<le> 1"
    by (simp_all add: checker_def)
qed

lemma box2_output:
  assumes "x \<in> {0..3}" "y \<in> {0..3}"
  shows "output_at box_up2 checker x y 0 = Some (samples checker (x div 2) (y div 2) 0)"
    and "output_at box_down2 checker x y 0 = Some (samples checker (x div 2) (y div 2) 0)"
proof -
  note c = checker_blocks [OF assms]
  have "resized_y_up box_up2 checker x y 0 = Some (Num (samples checker (x div 2) (y div 2) 0))"
    by (rule one_tap_resized)
      (simp_all add: box_up2_taps box_up2_kernel(1) [OF assms(1)] box_up2_kernel(2) [OF assms(2)]
        box_up2_window(1) [OF assms(1)] box_up2_window(2) [OF assms(2)]
        box_up2_begin(1) [OF assms(1)] box_up2_begin(2) [OF assms(2)] c)
  then show "output_at box_up2 checker x y 0 = Some (samples checker (x div 2) (y div 2) 0)"
    using c(2,3) by (simp add: output_at_resized clamp_def)
  have "resized_y_up box_down2 checker x y 0 = Some (Num (samples checker (x div 2) (y div 2) 0))"
    by (rule one_tap_resized)
      (simp_all add: box_down2_taps box_down2_kernel(1) [OF assms(1)] box_down2_kernel(2) [OF assms(2)]
        box_down2_window(1) [OF assms(1)] box_down2_window(2) [OF assms(2)]
        box_down2_begin(1) [OF assms(1)] box_down2_begin(2) [OF assms(2)] c)
  then show "output_at box_down2 checker x y 0 = Some (samples checker (x div 2) (y div 2) 0)"
    using c(2,3) by (simp add: output_at_resized clamp_def)
qed

lemma checker_clamped:
  "clamped_val checker 0 0 0 = Some (Num 0)" "clamped_val checker 1 0 0 = Some (Num 1)"
  "clamped_val checker 0 1 0 = Some (Num 1)" "clamped_val checker 1 1 0 = Some (Num 0)"
  by (simp_all add: clamped_val_def clamped_def repeat_edge_def input_at_def in_bounds_def
      clamp_def checker_def)

lemma box_half_fields:
  "interpolation_type (box_half up) = Box" "upsample (box_half up) = up"
  "scale_factor (box_half up) = 1 / 2"
  by (simp_all add: box_half_def)

lemma box_half_source: "sourcex (box_half up) 0 = 1 / 2" "sourcey (box_half up) 0 = 1 / 2"
  by (simp_all add: sourcex_def sourcey_def box_half_fields f32_small)

lemma box_half_up_geometry:
  "kernel_scaling (box_half True) = 1" "kernel_radius (box_half True) = 1 / 2"
  "kernel_taps (box_half True) = 1" "r_extent (box_half True) = 1"
  "beginx (box_half True) 0 = 0" "beginy (box_half True) 0 = 0"
proof -
  show s: "kernel_scaling (box_half True) = 1" by (simp add: kernel_scaling_def box_half_fields)
  show r: "kernel_radius (box_half True) = 1 / 2"
    by (simp add: kernel_radius_def s box_half_fields f32_small)
  show t: "kernel_taps (box_half True) = 1"
    by (simp add: kernel_taps_def s box_half_fields f32_small)
  show "r_extent (box_half True) = 1" by (simp add: r_extent_def t)
  show "beginx (box_half True) 0 = 0" by (simp add: beginx_def box_half_source r)
  show "beginy (box_half True) 0 = 0" by (simp add: beginy_def box_half_source r)
qed

lemma box_half_up_kernel:
  "kernel_x (box_half True) 0 0 = Num 1" "kernel_y (box_half True) 0 0 = Num 1"
proof -
  have "unnormalized_kernel_x (box_half True) 0 0 = 1"
    unfolding unnormalized_kernel_x_def box_half_up_geometry box_half_source
    by (simp add: f32_small box_half_fields kernel_box_def)
  then show "kernel_x (box_half True) 0 0 = Num 1"
    by (simp add: kernel_x_def kernel_sum_x_def box_half_up_geometry fdiv_def)
  have "unnormalized_kernel_y (box_half True) 0 0 = 1"
    unfolding unnormalized_kernel_y_def box_half_up_geometry box_half_source
    by (simp add: f32_small box_half_fields kernel_box_def)
  then show "kernel_y (box_half True) 0 0 = Num 1"
    by (simp add: kernel_y_def kernel_sum_y_def box_half_up_geometry fdiv_def)
qed

lemma box_half_up_output: "output_at (box_half True) checker 0 0 0 = Some 0"
proof -
  have "resized_y_up (box_half True) checker 0 0 0 = Some (Num 0)"
    by (rule one_tap_resized)
      (simp_all add: box_half_up_geometry box_half_up_kernel window_x_def window_y_def int32_def
        checker_clamped)
  then show ?thesis by (simp add: output_at_resized clamp_def)
qed

lemma box_half_down_geometry:
  "kernel_scaling (box_half False) = 1 / 2" "kernel_radius (box_half False) = 1"
  "kernel_taps (box_half False) = 2" "r_extent (box_half False) = 2"
  "beginx (box_half False) 0 = 0" "beginy (box_half False) 0 = 0"
proof -
  show s: "kernel_scaling (box_half False) = 1 / 2"
    by (simp add: kernel_scaling_def box_half_fields)
  show r: "kernel_radius (box_half False) = 1"
    by (simp add: kernel_radius_def s box_half_fields f32_small)
  show t: "kernel_taps (box_half False) = 2"
    by (simp add: kernel_taps_def s box_half_fields f32_small)
  show "r_extent (box_half False) = 2" by (simp add: r_extent_def t)
  show "beginx (box_half False) 0 = 0"
    by (simp add: beginx_def box_half_source r f32_small ceiling_small)
  show "beginy (box_half False) 0 = 0"
    by (simp add: beginy_def box_half_source r f32_small ceiling_small)
qed

lemma box_half_down_unnormalized:
  "unnormalized_kernel_x (box_half False) 0 0 = 1"
  "unnormalized_kernel_x (box_half False) 0 (Suc 0) = 1"
  "unnormalized_kernel_y (box_half False) 0 0 = 1"
  "unnormalized_kernel_y (box_half False) 0 (Suc 0) = 1"
  unfolding unnormalized_kernel_x_def unnormalized_kernel_y_def box_half_down_geometry
    box_half_source
  by (simp_all add: f32_small box_half_fields kernel_box_def)

lemma box_half_down_sums:
  "kernel_sum_x (box_half False) 0 = 2" "kernel_sum_y (box_half False) 0 = 2"
  by (simp_all add: kernel_sum_x_def kernel_sum_y_def box_half_down_geometry rdom_sum_2
      box_half_down_unnormalized)

lemma box_half_down_kernel:
  "kernel_x (box_half False) 0 0 = Num (1 / 2)" "kernel_x (box_half False) 0 (Suc 0) = Num (1 / 2)"
  "kernel_y (box_half False) 0 0 = Num (1 / 2)" "kernel_y (box_half False) 0 (Suc 0) = Num (1 / 2)"
  by (simp_all add: kernel_x_def kernel_y_def box_half_down_sums box_half_down_unnormalized
      fdiv_def)

lemma box_half_down_window: "window_x (box_half False) 0" "window_y (box_half False) 0"
  by (simp_all add: window_x_def window_y_def box_half_down_geometry int32_def)

lemma box_half_down_output: "output_at (box_half False) checker 0 0 0 = Some (1 / 2)"
proof -
  have x0: "resized_x_up (box_half False) checker 0 0 0 = Some (Num (1 / 2))"
    by (simp add: resized_x_up_def box_half_down_geometry rdom_sum_opt_2 box_half_down_kernel
        checker_clamped fadd_def)
  have x1: "resized_x_up (box_half False) checker 0 1 0 = Some (Num (1 / 2))"
    by (simp add: resized_x_up_def box_half_down_geometry rdom_sum_opt_2 box_half_down_kernel
        checker_clamped fadd_def)
  have "resized_y_up (box_half False) checker 0 0 0 = Some (Num (1 / 2))"
    by (simp add: resized_y_up_def box_half_down_window box_half_down_geometry rdom_sum_opt_2
        box_half_down_kernel x0 x1 fadd_def)
  then show ?thesis by (simp add: output_at_resized clamp_def)
qed

lemma lanczos_up_tap: "unnormalized_kernel_x lanczos_up 1 4 = kernel_lanczos (3 / 2)"
proof -
  have f: "interpolation_type lanczos_up = Lanczos" "upsample lanczos_up"
    "scale_factor lanczos_up = 3 / 2"
    by (simp_all add: lanczos_up_def)
  have s: "sourcex lanczos_up 1 = 1 / 2" by (simp add: sourcex_def f f32_small)
  have k: "kernel_scaling lanczos_up = 1" by (simp add: kernel_scaling_def f)
  have r: "kernel_radius lanczos_up = 3" by (simp add: kernel_radius_def k f f32_small)
  have b: "beginx lanczos_up 1 = - 2" by (simp add: beginx_def s r f32_small ceiling_small)
  show ?thesis
    unfolding unnormalized_kernel_x_def b s k by (simp add: f f32_small)
qed

lemma cubic_up2_fields:
  "interpolation_type cubic_up2 = Cubic" "upsample cubic_up2" "scale_factor cubic_up2 = 2"
  by (simp_all add: cubic_up2_def)

lemma cubic_up2_source:
  "sourcex cubic_up2 2 = 3 / 4" "sourcex cubic_up2 5 = 9 / 4" "sourcey cubic_up2 0 = - (1 / 4)"
  by (simp_all add: sourcex_def sourcey_def cubic_up2_fields f32_small)

lemma cubic_up2_geometry:
  "kernel_scaling cubic_up2 = 1" "kernel_radius cubic_up2 = 2" "kernel_taps cubic_up2 = 4"
  "r_extent cubic_up2 = 4" "beginx cubic_up2 2 = - 1" "beginx cubic_up2 5 = 1"
  "beginy cubic_up2 0 = - 2"
proof -
  show s: "kernel_scaling cubic_up2 = 1" by (simp add: kernel_scaling_def cubic_up2_fields)
  show r: "kernel_radius cubic_up2 = 2"
    by (simp add: kernel_radius_def s cubic_up2_fields f32_small)
  show t: "kernel_taps cubic_up2 = 4"
    by (simp add: kernel_taps_def s cubic_up2_fields f32_small)
  show "r_extent cubic_up2 = 4" by (simp add: r_extent_def t)
  show "beginx cubic_up2 2 = - 1" "beginx cubic_up2 5 = 1" "beginy cubic_up2 0 = - 2"
    by (simp_all add: beginx_def beginy_def cubic_up2_source r f32_small ceiling_small)
qed

lemma cubic_up2_unnormalized:
  "unnormalized_kernel_x cubic_up2 2 0 = - (3 / 128)" "unnormalized_kernel_x cubic_up2 2 (Suc 0) = 29 / 128"
  "unnormalized_kernel_x cubic_up2 2 2 = 111 / 128" "unnormalized_kernel_x cubic_up2 2 3 = - (9 / 128)"
  "unnormalized_kernel_x cubic_up2 5 0 = - (9 / 128)" "unnormalized_kernel_x cubic_up2 5 (Suc 0) = 111 / 128"
  "unnormalized_kernel_x cubic_up2 5 2 = 29 / 128" "unnormalized_kernel_x cubic_up2 5 3 = - (3 / 128)"
  "unnormalized_kernel_y cubic_up2 0 0 = - (3 / 128)" "unnormalized_kernel_y cubic_up2 0 (Suc 0) = 29 / 128"
  "unnormalized_kernel_y cubic_up2 0 2 = 111 / 128" "unnormalized_kernel_y cubic_up2 0 3 = - (9 / 128)"
  unfolding unnormalized_kernel_x_def unnormalized_kernel_y_def cubic_up2_geometry cubic_up2_source
  by (simp_all add: cubic_up2_fields f32_small kernel_cubic_quarters)

lemma cubic_up2_sums:
  "kernel_sum_x cubic_up2 2 = 1" "kernel_sum_x cubic_up2 5 = 1" "kernel_sum_y cubic_up2 0 = 1"
  by (simp_all add: kernel_sum_x_def kernel_sum_y_def cubic_up2_geometry rdom_sum_4
      cubic_up2_unnormalized)

lemma cubic_up2_kernel:
  "kernel_x cubic_up2 2 k = Num (unnormalized_kernel_x cubic_up2 2 k)"
  "kernel_x cubic_up2 5 k = Num (unnormalized_kernel_x cubic_up2 5 k)"
  "kernel_y cubic_up2 0 k = Num (unnormalized_kernel_y cubic_up2 0 k)"
  by (simp_all add: kernel_x_def kernel_y_def cubic_up2_sums fdiv_def)

lemma cubic_up2_window:
  "window_x cubic_up2 2" "window_x cubic_up2 5" "window_y cubic_up2 0"
  by (simp_all add: window_x_def window_y_def cubic_up2_geometry int32_def)

lemma edge_clamped:
  "clamped_val edge x y 0 = Some (Num (if 2 \<le> x then 1 else 0))"
  by (auto simp add: clamped_val_def clamped_def repeat_edge_def input_at_def in_bounds_def
      clamp_def edge_def)

lemma cubic_up2_overshoot:
  "resized_y_up cubic_up2 edge 2 0 0 = Some (Num (- (9 / 128)))"
  "output_at cubic_up2 edge 2 0 0 = Some 0"
  "resized_y_up cubic_up2 edge 5 0 0 = Some (Num (137 / 128))"
  "output_at cubic_up2 edge 5 0 0 = Some 1"
proof -
  have x2: "resized_x_up cubic_up2 edge 2 y' 0 = Some (Num (- (9 / 128)))" for y'
    by (simp add: resized_x_up_def cubic_up2_geometry rdom_sum_opt_4 cubic_up2_kernel
        cubic_up2_unnormalized edge_clamped fadd_def)
  have x5: "resized_x_up cubic_up2 edge 5 y' 0 = Some (Num (137 / 128))" for y'
    by (simp add: resized_x_up_def cubic_up2_geometry rdom_sum_opt_4 cubic_up2_kernel
        cubic_up2_unnormalized edge_clamped fadd_def)
  show y2: "resized_y_up cubic_up2 edge 2 0 0 = Some (Num (- (9 / 128)))"
    by (simp add: resized_y_up_def cubic_up2_window cubic_up2_geometry rdom_sum_opt_4
        cubic_up2_kernel cubic_up2_unnormalized x2 fadd_def)
  show y5: "resized_y_up cubic_up2 edge 5 0 0 = Some (Num (137 / 128))"
    by (simp add: resized_y_up_def cubic_up2_window cubic_up2_geometry rdom_sum_opt_4
        cubic_up2_kernel cubic_up2_unnormalized x5 fadd_def)
  show "output_at cubic_up2 edge 2 0 0 = Some 0" "output_at cubic_up2 edge 5 0 0 = Some 1"
    by (simp_all add: output_at_resized y2 y5 clamp_def)
qed

text \<open>The one weight of the box kernel at scale factor 4 is 0 / 0; the clamp gives 1.\<close>

lemma box_down4_output:
  "kernel_x box_down4 0 0 = NotNum" "resized_y_up box_down4 checker 0 0 0 = Some NotNum"
  "output_at box_down4 checker 0 0 0 = Some 1"
proof -
  show k: "kernel_x box_down4 0 0 = NotNum"
    by (simp add: kernel_x_def box_down4_sum fdiv_def)
  have f: "interpolation_type box_down4 = Box" "\<not> upsample box_down4"
    "scale_factor box_down4 = 4"
    by (simp_all add: box_down4_def)
  have sy: "sourcey box_down4 0 = - (3 / 8)" by (simp add: sourcey_def f f32_small)
  have h: "\<lceil>- (1 / 2) :: real\<rceil> = 0" by (rule ceiling_unique) simp_all
  have b: "beginy box_down4 0 = 0" by (simp add: beginy_def sy box_down4_geometry f32_small h)
  have w: "window_x box_down4 0" "window_y box_down4 0"
    by (simp_all add: window_x_def window_y_def box_down4_geometry b int32_def)
  have x: "resized_x_up box_down4 checker 0 y' 0 = Some NotNum" for y'
  proof -
    obtain v where "clamped_val checker 0 y' 0 = Some (Num v)"
      using clamped_val_Some [of checker 0 0 y'] by (auto simp add: checker_def)
    then show ?thesis
      by (simp add: resized_x_up_def box_down4_geometry k fadd_def)
  qed
  show y: "resized_y_up box_down4 checker 0 0 0 = Some NotNum"
    by (cases "kernel_y box_down4 0 0")
      (simp_all add: resized_y_up_def w box_down4_geometry x fadd_def)
  show "output_at box_down4 checker 0 0 0 = Some 1"
    by (simp add: output_at_resized y)
qed

text \<open>
  The linear kernel with a scale factor of 1 at the output coordinate \<open>2 ^ 24 + 2\<close>: both
  taps fall on \<open>2 ^ 24\<close>, two pixels to the left of the source coordinate, and the sum of the
  unnormalised weights is 0.
\<close>

lemma linear_unit_far_sum:
  "sourcex linear_unit 16777218 = 16777218" "beginx linear_unit 16777218 = 16777216"
  "r_extent linear_unit = 2" "kernel_sum_x linear_unit 16777218 = 0"
proof -
  have f: "interpolation_type linear_unit = Linear" "scale_factor linear_unit = 1"
    by (simp_all add: linear_unit_def)
  show s: "sourcex linear_unit 16777218 = 16777218"
    by (simp add: sourcex_def f f32_large)
  have r: "kernel_radius linear_unit = 1" "kernel_scaling linear_unit = 1"
    using unit_scale_taps(1,2) [OF f(2)] by (simp_all add: f)
  show b: "beginx linear_unit 16777218 = 16777216"
    by (simp add: beginx_def s r f32_ties)
  show e: "r_extent linear_unit = 2"
    using unit_scale_taps(4) [OF f(2)] by (simp add: f)
  have "unnormalized_kernel_x linear_unit 16777218 0 = 0"
    "unnormalized_kernel_x linear_unit 16777218 (Suc 0) = 0"
    unfolding unnormalized_kernel_x_def b s r
    by (simp_all add: f f32_large f32_ties f32_small kernel_linear_def)
  then show "kernel_sum_x linear_unit 16777218 = 0"
    by (simp add: kernel_sum_x_def e rdom_sum_2)
qed


section \<open>The properties\<close>

text \<open>
  C1. The specification asks of the Lanczos kernel the product of two normalised sincs,
  \<open>sin (pi * x) / (pi * x)\<close>. The source divides by \<open>x\<close> only and still returns 1 at 0.
  At \<open>t = 3 / 2\<close>, the offset of tap 4 at output coordinate 1 when upsampling by 3 / 2, the
  source gives \<open>- 4 / 3\<close> where the specification asks \<open>- 4 / (3 * pi\<^sup>2)\<close>: the two differ
  by the factor \<open>pi\<^sup>2\<close> (lemma \<open>kernel_lanczos_vs_spec\<close> has it for every \<open>t\<close> other than 0).
\<close>

theorem kernel_lanczos_at_3_2:
  "unnormalized_kernel_x lanczos_up 1 4 = kernel_lanczos (3 / 2) \<and>
   kernel_lanczos (3 / 2) = - (4 / 3) \<and> lanczos_spec (3 / 2) = - (4 / (3 * pi\<^sup>2)) \<and>
   kernel_lanczos (3 / 2) \<noteq> lanczos_spec (3 / 2)"
proof -
  have u: "unnormalized_kernel_x lanczos_up 1 4 = kernel_lanczos (3 / 2)"
    by (rule lanczos_up_tap)
  have s1: "sin (pi * 3 / 2) = - 1"
    using sin_3over2_pi by (simp add: mult.commute)
  have k: "kernel_lanczos (3 / 2) = - (4 / 3)"
    by (simp add: kernel_lanczos_def sinc_def Let_def s1)
  have l: "lanczos_spec (3 / 2) = - (4 / (3 * pi\<^sup>2))"
    by (simp add: lanczos_spec_def s1 power2_eq_square)
  have "2 * 2 \<le> pi * pi" using pi_ge_two by (intro mult_mono) simp_all
  then have "pi\<^sup>2 \<noteq> 1" by (simp add: power2_eq_square)
  then have "- (4 / 3) \<noteq> - (4 / (3 * pi\<^sup>2))" by (simp add: field_simps)
  with u k l show ?thesis by simp
qed







text \<open>
  C4, as stated, fails: the flag \<open>upsample\<close> also selects the kernel scaling (1 when set,
  the scale factor otherwise). With the box kernel and a scale factor of 1 / 2 the output at
  (0, 0, 0) of the 2 x 2 image is 0 with the flag set and 1 / 2 with it unset.
\<close>

theorem upsample_flag_changes_output:
  "output_at (box_half True) checker 0 0 0 = Some 0 \<and>
   output_at (box_half False) checker 0 0 0 = Some (1 / 2) \<and>
   output_at (box_half True) checker 0 0 0 \<noteq> output_at (box_half False) checker 0 0 0"
  by (simp add: box_half_up_output box_half_down_output)

text \<open>
  C4, amended: for the same weight tables the two orders give the same value, x then y
  (\<open>resized_y_up\<close>) and y then x (\<open>resized_x_down\<close>), at every coordinate, for every input
  and every setting; the two pipelines selected by \<open>upsample\<close> produce the same output when
  the scale factor is 1, where the kernel scaling is 1 in both. The weighted sums are added
  as real numbers, where the order of the additions does not matter.
\<close>

theorem separable_orders:
  "resized_y_up g inp x y c = resized_x_down g inp x y c \<and>
   (scale_factor g = 1 \<longrightarrow>
      output_at (g\<lparr>upsample := True\<rparr>) inp x y c = output_at (g\<lparr>upsample := False\<rparr>) inp x y c)"
proof (intro conjI impI)
  show "resized_y_up g inp x y c = resized_x_down g inp x y c"
    by (rule resized_orders_agree)
  assume "scale_factor g = 1"
  then have "resized_y_up (g\<lparr>upsample := True\<rparr>) inp x y c =
      resized_y_up (g\<lparr>upsample := False\<rparr>) inp x y c"
    by (intro same_tables) (simp_all add: kernel_scaling_def)
  then show "output_at (g\<lparr>upsample := True\<rparr>) inp x y c =
      output_at (g\<lparr>upsample := False\<rparr>) inp x y c"
    by (simp only: output_at_resized)
qed

theorem separable_orders_witness:
  "scale_factor cubic_unit = 1 \<and>
   resized_y_up cubic_unit checker 0 1 0 = resized_x_down cubic_unit checker 0 1 0 \<and>
   output_at (cubic_unit\<lparr>upsample := True\<rparr>) checker 0 1 0 =
     output_at (cubic_unit\<lparr>upsample := False\<rparr>) checker 0 1 0"
  using separable_orders [of cubic_unit checker 0 1 0] by (simp add: cubic_unit_def)

text \<open>
  C5. Every sample of the output lies in \<open>[0, 1]\<close>, whatever the setting, the scale factor
  and the input: the clamp is applied to whatever the weighted sum is, a number outside
  \<open>[0, 1]\<close> or a value that is not a number. The output at \<open>(x, y, c)\<close> is such a sample for
  every input buffer with positive extents in x and y that holds channel \<open>c\<close>, wherever the
  integers of the two tap windows fit 32 bits.
\<close>

theorem output_in_unit_interval:
  "(\<forall>v. output_at g inp x y c = Some v \<longrightarrow> 0 \<le> v \<and> v \<le> 1) \<and>
   (0 < dim0_extent inp \<and> 0 < dim1_extent inp \<and>
    dim2_min inp \<le> c \<and> c < dim2_min inp + dim2_extent inp \<and>
    window_x g x \<and> window_y g y \<longrightarrow>
      (\<exists>v. output_at g inp x y c = Some v \<and> 0 \<le> v \<and> v \<le> 1))"
proof -
  have range: "0 \<le> v \<and> v \<le> 1" if "output_at g inp x y c = Some v" for v
  proof -
    from that obtain w where "v = clamp_val w 0 1" by (auto simp add: output_at_resized)
    then show ?thesis by (simp only: clamp_val_unit)
  qed
  have defined: "\<exists>v. output_at g inp x y c = Some v \<and> 0 \<le> v \<and> v \<le> 1"
    if "0 < dim0_extent inp" "0 < dim1_extent inp"
      "dim2_min inp \<le> c" "c < dim2_min inp + dim2_extent inp"
      "window_x g x" "window_y g y"
  proof -
    from that obtain w where "resized_y_up g inp x y c = Some w"
      using resized_defined by blast
    then have "output_at g inp x y c = Some (clamp_val w 0 1)"
      by (simp add: output_at_resized)
    then show ?thesis using clamp_val_unit [of w] by simp
  qed
  from range defined show ?thesis by blast
qed

text \<open>
  The step image under cubic upsampling by 2: next to the edge the weighted sums are
  \<open>- 9 / 128\<close> and \<open>137 / 128\<close>, and the output there is 0 and 1. The 2 x 2 image under the
  box kernel with a scale factor of 4: the weighted sum at the origin is not a number, and
  the output there is 1.
\<close>

theorem output_in_unit_interval_witness:
  "0 < dim0_extent edge \<and> 0 < dim1_extent edge \<and>
   dim2_min edge \<le> 0 \<and> 0 < dim2_min edge + dim2_extent edge \<and>
   window_x cubic_up2 2 \<and> window_x cubic_up2 5 \<and> window_y cubic_up2 0 \<and>
   resized_y_up cubic_up2 edge 2 0 0 = Some (Num (- (9 / 128))) \<and>
   output_at cubic_up2 edge 2 0 0 = Some 0 \<and>
   resized_y_up cubic_up2 edge 5 0 0 = Some (Num (137 / 128)) \<and>
   output_at cubic_up2 edge 5 0 0 = Some 1 \<and>
   resized_y_up box_down4 checker 0 0 0 = Some NotNum \<and>
   output_at box_down4 checker 0 0 0 = Some 1 \<and>
   (\<exists>v. output_at cubic_up2 edge 2 0 0 = Some v \<and> 0 \<le> v \<and> v \<le> 1) \<and>
   (\<exists>v. output_at cubic_up2 edge 5 0 0 = Some v \<and> 0 \<le> v \<and> v \<le> 1)"
proof -
  have e: "0 < dim0_extent edge" "0 < dim1_extent edge"
    "dim2_min edge \<le> 0" "0 < dim2_min edge + dim2_extent edge"
    by (simp_all add: edge_def)
  have "\<exists>v. output_at cubic_up2 edge 2 0 0 = Some v \<and> 0 \<le> v \<and> v \<le> 1"
    using output_in_unit_interval [of cubic_up2 edge 2 0 0] e cubic_up2_window by simp
  moreover have "\<exists>v. output_at cubic_up2 edge 5 0 0 = Some v \<and> 0 \<le> v \<and> v \<le> 1"
    using output_in_unit_interval [of cubic_up2 edge 5 0 0] e cubic_up2_window by simp
  ultimately show ?thesis
    using e by (simp add: cubic_up2_overshoot cubic_up2_window box_down4_output)
qed

text \<open>
  C7. For an input buffer with positive extents in x and y that holds channel \<open>c\<close>, the
  boundary handler returns, at every integer coordinate, the input sample at \<open>x\<close> clamped
  into \<open>[x_min, x_min + x_extent - 1]\<close> and \<open>y\<close> clamped into \<open>[y_min, y_min + y_extent - 1]\<close>,
  channel unchanged; that read lies inside the buffer, and a coordinate inside the buffer
  is read as it is. The handler is a function of the buffer: nothing is written.
\<close>

theorem clamped_repeat_edge:
  assumes "0 < dim0_extent inp" "0 < dim1_extent inp"
    and "dim2_min inp \<le> c" "c < dim2_min inp + dim2_extent inp"
  shows "clamped inp x y c =
           Some (samples inp (clamp x (dim0_min inp) (dim0_min inp + dim0_extent inp - 1))
                             (clamp y (dim1_min inp) (dim1_min inp + dim1_extent inp - 1)) c) \<and>
         in_bounds inp (clamp x (dim0_min inp) (dim0_min inp + dim0_extent inp - 1))
                       (clamp y (dim1_min inp) (dim1_min inp + dim1_extent inp - 1)) c \<and>
         (in_bounds inp x y c \<longrightarrow> clamped inp x y c = Some (samples inp x y c))"
  using assms
  by (auto simp add: clamped_def repeat_edge_def input_at_def in_bounds_def clamp_def)

theorem clamped_repeat_edge_witness:
  "0 < dim0_extent checker \<and> 0 < dim1_extent checker \<and> dim2_min checker \<le> 0 \<and>
   0 < dim2_min checker + dim2_extent checker \<and>
   clamped checker 5 (- 3) 0 = Some (samples checker 1 0 0) \<and> in_bounds checker 1 0 0"
proof -
  have d: "0 < dim0_extent checker" "0 < dim1_extent checker" "dim2_min checker \<le> 0"
    "0 < dim2_min checker + dim2_extent checker"
    by (simp_all add: checker_def)
  have "clamp (5::int) (dim0_min checker) (dim0_min checker + dim0_extent checker - 1) = 1"
    "clamp (- 3::int) (dim1_min checker) (dim1_min checker + dim1_extent checker - 1) = 0"
    by (simp_all add: checker_def clamp_def)
  with d clamped_repeat_edge [OF d, of 5 "- 3"] show ?thesis by simp
qed

text \<open>
  C8. The cubic kernel is the Keys cubic with \<open>a = - 1 / 2\<close>: the two polynomial pieces and 0
  outside. It vanishes at \<open>\<bar>t\<bar> = 1\<close> and \<open>\<bar>t\<bar> = 2\<close>, and it is differentiable at these four
  breakpoints, with derivative \<open>- 1 / 2\<close> at 1, \<open>1 / 2\<close> at \<open>- 1\<close> and 0 at 2 and \<open>- 2\<close>: the
  adjacent pieces agree there in value and in first derivative.
\<close>

theorem kernel_cubic_keys:
  "kernel_cubic t =
     (if \<bar>t\<bar> < 1 then (- (1 / 2) + 2) * \<bar>t\<bar> ^ 3 - (- (1 / 2) + 3) * t\<^sup>2 + 1
      else if \<bar>t\<bar> < 2
        then - (1 / 2) * \<bar>t\<bar> ^ 3 - 5 * (- (1 / 2)) * t\<^sup>2 + 8 * (- (1 / 2)) * \<bar>t\<bar> - 4 * (- (1 / 2))
      else 0) \<and>
   kernel_cubic 1 = 0 \<and> kernel_cubic (- 1) = 0 \<and> kernel_cubic 2 = 0 \<and> kernel_cubic (- 2) = 0 \<and>
   (kernel_cubic has_real_derivative - (1 / 2)) (at 1) \<and>
   (kernel_cubic has_real_derivative 1 / 2) (at (- 1)) \<and>
   (kernel_cubic has_real_derivative 0) (at 2) \<and>
   (kernel_cubic has_real_derivative 0) (at (- 2)) \<and>
   isCont kernel_cubic 1 \<and> isCont kernel_cubic (- 1) \<and>
   isCont kernel_cubic 2 \<and> isCont kernel_cubic (- 2)"
proof -
  have f: "kernel_cubic t =
     (if \<bar>t\<bar> < 1 then (- (1 / 2) + 2) * \<bar>t\<bar> ^ 3 - (- (1 / 2) + 3) * t\<^sup>2 + 1
      else if \<bar>t\<bar> < 2
        then - (1 / 2) * \<bar>t\<bar> ^ 3 - 5 * (- (1 / 2)) * t\<^sup>2 + 8 * (- (1 / 2)) * \<bar>t\<bar> - 4 * (- (1 / 2))
      else 0)"
    by (simp add: kernel_cubic_def Let_def power2_eq_square power3_eq_cube)
  have v: "kernel_cubic 1 = 0" "kernel_cubic (- 1) = 0" "kernel_cubic 2 = 0" "kernel_cubic (- 2) = 0"
    by (simp_all add: kernel_cubic_def)
  have d1: "(kernel_cubic has_real_derivative - (1 / 2)) (at 1)" by (rule kernel_cubic_deriv_1)
  have d2: "(kernel_cubic has_real_derivative 0) (at 2)" by (rule kernel_cubic_deriv_2)
  have d3: "(kernel_cubic has_real_derivative 1 / 2) (at (- 1))"
    using kernel_cubic_deriv_neg [OF d1] by simp
  have d4: "(kernel_cubic has_real_derivative 0) (at (- 2))"
    using kernel_cubic_deriv_neg [OF d2] by simp
  note c = DERIV_isCont [OF d1] DERIV_isCont [OF d2] DERIV_isCont [OF d3] DERIV_isCont [OF d4]
  from f v d1 d2 d3 d4 c show ?thesis by (simp only: simp_thms)
qed

text \<open>
  C9. The 2 x 2 single-channel input with rows \<open>[0, 1]\<close> and \<open>[1, 0]\<close>, a scale factor of 2
  and the box kernel: on the 4 x 4 output every sample equals the input pixel of its 2 x 2
  block, the one at \<open>(x div 2, y div 2)\<close>. This holds with \<open>upsample\<close> set, the pipeline for
  upsampling, and also with it unset.
\<close>

theorem scenario_box_up2:
  "\<forall>x\<in>{0..3}. \<forall>y\<in>{0..3}.
     output_at box_up2 checker x y 0 = Some (samples checker (x div 2) (y div 2) 0) \<and>
     output_at box_down2 checker x y 0 = Some (samples checker (x div 2) (y div 2) 0)"
proof (intro ballI conjI)
  fix x y :: int assume xy: "x \<in> {0..3}" "y \<in> {0..3}"
  show "output_at box_up2 checker x y 0 = Some (samples checker (x div 2) (y div 2) 0)"
    using xy by (rule box2_output)
  show "output_at box_down2 checker x y 0 = Some (samples checker (x div 2) (y div 2) 0)"
    using xy by (rule box2_output)
qed

theorem scenario_box_up2_witness:
  "(2::int) \<in> {0..3} \<and> (1::int) \<in> {0..3} \<and> (3::int) \<in> {0..3} \<and>
   output_at box_up2 checker 2 1 0 = Some 1 \<and> output_at box_up2 checker 3 3 0 = Some 0 \<and>
   output_at box_down2 checker 2 1 0 = Some 1"
proof -
  have m: "(2::int) \<in> {0..3}" "(1::int) \<in> {0..3}" "(3::int) \<in> {0..3}" by simp_all
  with scenario_box_up2
  have "output_at box_up2 checker 2 1 0 = Some (samples checker (2 div 2) (1 div 2) 0)"
    "output_at box_up2 checker 3 3 0 = Some (samples checker (3 div 2) (3 div 2) 0)"
    "output_at box_down2 checker 2 1 0 = Some (samples checker (2 div 2) (1 div 2) 0)"
    by blast+
  then show ?thesis by (simp add: checker_def)
qed

text \<open>
  C10. The weight tables \<open>kernel_x\<close> and \<open>kernel_y\<close> are functions of the setting, the output
  coordinate along their axis and the tap index only. For two input buffers of the same
  geometry in x and y whose reads agree on channel \<open>c\<close> everywhere, the outputs agree on
  channel \<open>c\<close> at every coordinate, whatever the other channels hold.
\<close>

theorem channels_independent:
  assumes "dim0_min a = dim0_min b" "dim0_extent a = dim0_extent b"
    and "dim1_min a = dim1_min b" "dim1_extent a = dim1_extent b"
    and "\<forall>x y. input_at a x y c = input_at b x y c"
  shows "output_at g a x y c = output_at g b x y c"
proof -
  have "clamped_val a x' y' c = clamped_val b x' y' c" for x' y'
    using assms by (simp add: clamped_val_def clamped_def repeat_edge_def)
  then show ?thesis
    by (simp add: output_at_def resized_y_up_def resized_x_up_def resized_x_down_def
        resized_y_down_def)
qed

theorem channels_independent_witness:
  "dim0_min (two_channel 0) = dim0_min (two_channel 1) \<and>
   dim0_extent (two_channel 0) = dim0_extent (two_channel 1) \<and>
   dim1_min (two_channel 0) = dim1_min (two_channel 1) \<and>
   dim1_extent (two_channel 0) = dim1_extent (two_channel 1) \<and>
   (\<forall>x y. input_at (two_channel 0) x y 0 = input_at (two_channel 1) x y 0) \<and>
   samples (two_channel 0) 0 0 1 \<noteq> samples (two_channel 1) 0 0 1 \<and>
   output_at box_up2 (two_channel 0) 2 1 0 = output_at box_up2 (two_channel 1) 2 1 0"
proof -
  have "\<forall>x y. input_at (two_channel 0) x y 0 = input_at (two_channel 1) x y 0"
    by (simp add: input_at_def in_bounds_def two_channel_def)
  moreover have "dim0_min (two_channel 0) = dim0_min (two_channel 1)"
    "dim0_extent (two_channel 0) = dim0_extent (two_channel 1)"
    "dim1_min (two_channel 0) = dim1_min (two_channel 1)"
    "dim1_extent (two_channel 0) = dim1_extent (two_channel 1)"
    "samples (two_channel 0) 0 0 1 \<noteq> samples (two_channel 1) 0 0 1"
    by (simp_all add: two_channel_def)
  ultimately show ?thesis
    using channels_independent [of "two_channel 0" "two_channel 1" 0 box_up2 2 1] by simp
qed

end
